theory Spec2Isabelle
  imports Complex_Main "HOL-Library.Product_Lexorder"
begin

section \<open>Values, errors and tables\<close>

text \<open>
  A cell of a pandas column is a 64-bit float.  The model keeps the three special values
  apart and takes finite values as reals: arithmetic on finite values is exact (rounding,
  overflow to infinity and the sign of zero are not modelled), while the propagation of
  \<open>NaN\<close> and the two infinities follows IEEE 754 as numpy implements it.
\<close>

datatype fl = NaN | PInf | NInf | Fin real

datatype py_error =
  KeyError | IndexError | ValueError | OverflowError | DataLoadError | MergeError

definition isna :: "fl \<Rightarrow> bool" where
  "isna x = (x = NaN)"

definition isinf :: "fl \<Rightarrow> bool" where
  "isinf x = (x = PInf \<or> x = NInf)"

definition fillna :: "fl \<Rightarrow> fl \<Rightarrow> fl" where
  "fillna d x = (if isna x then d else x)"

fun fl_neg :: "fl \<Rightarrow> fl" where
  "fl_neg NaN = NaN"
| "fl_neg PInf = NInf"
| "fl_neg NInf = PInf"
| "fl_neg (Fin a) = Fin (- a)"

fun fl_add :: "fl \<Rightarrow> fl \<Rightarrow> fl" where
  "fl_add NaN _ = NaN"
| "fl_add _ NaN = NaN"
| "fl_add PInf NInf = NaN"
| "fl_add NInf PInf = NaN"
| "fl_add PInf _ = PInf"
| "fl_add _ PInf = PInf"
| "fl_add NInf _ = NInf"
| "fl_add _ NInf = NInf"
| "fl_add (Fin a) (Fin b) = Fin (a + b)"

definition fl_sub :: "fl \<Rightarrow> fl \<Rightarrow> fl" where
  "fl_sub a b = fl_add a (fl_neg b)"

text \<open>Division: a finite nonzero value over zero is an infinity, zero over zero is \<open>NaN\<close>.\<close>

fun fl_div :: "fl \<Rightarrow> fl \<Rightarrow> fl" where
  "fl_div NaN _ = NaN"
| "fl_div _ NaN = NaN"
| "fl_div (Fin a) (Fin b) =
     (if b \<noteq> 0 then Fin (a / b)
      else if 0 < a then PInf else if a < 0 then NInf else NaN)"
| "fl_div (Fin a) _ = Fin 0"
| "fl_div PInf (Fin b) = (if 0 \<le> b then PInf else NInf)"
| "fl_div NInf (Fin b) = (if 0 \<le> b then NInf else PInf)"
| "fl_div _ _ = NaN"

text \<open>Comparisons: every comparison with \<open>NaN\<close> is false.\<close>

fun fl_lt :: "fl \<Rightarrow> fl \<Rightarrow> bool" where
  "fl_lt NaN _ = False"
| "fl_lt _ NaN = False"
| "fl_lt (Fin a) (Fin b) = (a < b)"
| "fl_lt NInf NInf = False"
| "fl_lt NInf _ = True"
| "fl_lt _ NInf = False"
| "fl_lt PInf _ = False"
| "fl_lt _ PInf = True"

definition fl_eq :: "fl \<Rightarrow> fl \<Rightarrow> bool" where
  "fl_eq a b = (a \<noteq> NaN \<and> a = b)"

definition fl_le :: "fl \<Rightarrow> fl \<Rightarrow> bool" where
  "fl_le a b = (fl_lt a b \<or> fl_eq a b)"

definition fl_gt :: "fl \<Rightarrow> fl \<Rightarrow> bool" where
  "fl_gt a b = fl_lt b a"

definition fl_ge :: "fl \<Rightarrow> fl \<Rightarrow> bool" where
  "fl_ge a b = fl_le b a"

text \<open>
  \<open>int(x)\<close> on a float truncates towards zero and raises on the special values.
\<close>

fun py_int :: "fl \<Rightarrow> py_error + int" where
  "py_int (Fin r) = Inr (if 0 \<le> r then \<lfloor>r\<rfloor> else \<lceil>r\<rceil>)"
| "py_int NaN = Inl ValueError"
| "py_int _ = Inl OverflowError"

subsection \<open>Interval-to-midpoint tables (\<open>src/data/midpoint_tables.py\<close>)\<close>

text \<open>
  Each \<open>_MAP_n\<close> is a dict literal with distinct keys, kept as an association list;
  each \<open>_VARS_n\<close> is a frozenset, kept as the list of its elements.
\<close>

definition MAP_1 :: "(int \<times> real) list" where
  "MAP_1 =
    [(1, 5000), (2, 20000), (3, 40000), (4, 60000), (5, 85000), (6, 200000), (7, 400000),
     (8, 750000), (9, 3000000), (10, 7500000), (11, 15000000)]"

definition VARS_1 :: "string list" where
  "VARS_1 =
    [''b2003ait'', ''b2050it'', ''b2059it'', ''b2063it'', ''b2080it'', ''d3109it'',
     ''d3110it'', ''d4103it'', ''d5107it'', ''d5108it'', ''d6100ait'', ''d8104it'',
     ''d9103it'', ''d9110ait'', ''k2102cit'', ''c3019ait'']"

definition MAP_2 :: "(int \<times> real) list" where
  "MAP_2 = MAP_1"

definition VARS_2 :: "string list" where
  "VARS_2 =
    [''b2003bit'', ''b2052it'']"

definition MAP_3 :: "(int \<times> real) list" where
  "MAP_3 =
    [(1, 5000), (2, 15000), (3, 35000), (4, 75000), (5, 150000), (6, 250000), (7, 400000),
     (8, 750000), (9, 1500000), (10, 3500000), (11, 7500000)]"

definition VARS_3 :: "string list" where
  "VARS_3 =
    [''b2003eit'', ''b2055it'', ''a3136it'', ''d3117it'', ''b2046it'', ''b3004bit'',
     ''b3005bit'', ''b3005it'', ''b3006ait'', ''b3030dit'', ''b3030eit'', ''b3031ait'',
     ''b3045cit'', ''b3056ait'', ''c3017cait'', ''c3019cit'', ''c3019eit'', ''c7052bit'',
     ''c7060it'', ''c7061it'', ''c7062it'', ''c8007it'', ''d1105it'', ''d2104it'',
     ''d3103it'', ''d7106hit'', ''d7110ait'', ''e1006it'', ''e1022it'', ''e3003cit'',
     ''e4003it'', ''h2004it'', ''c2035ait'']"

definition MAP_4 :: "(int \<times> real) list" where
  "MAP_4 =
    [(1, 2500), (2, 7500), (3, 15000), (4, 35000), (5, 75000), (6, 125000), (7, 175000),
     (8, 250000), (9, 400000), (10, 750000), (11, 1500000)]"

definition VARS_4 :: "string list" where
  "VARS_4 =
    [''b2093it'', ''a3136ait'', ''a3136bit'', ''a3137it'', ''b2110it'', ''d5109it'',
     ''d7106jit'', ''d7112it'', ''d9105it'', ''d9108it'', ''d9110bit'', ''k1101it'',
     ''k2208it'', ''f1010it'', ''f1031it'']"

definition MAP_5 :: "(int \<times> real) list" where
  "MAP_5 =
    [(1, 500), (2, 1500), (3, 3500), (4, 7500), (5, 15000), (6, 35000), (7, 75000),
     (8, 150000)]"

definition VARS_5 :: "string list" where
  "VARS_5 =
    [''b3008fit'']"

definition MAP_6 :: "(int \<times> real) list" where
  "MAP_6 =
    [(1, 25), (2, 60.5), (3, 80.5), (4, 95.5), (5, 110.5), (6, 132), (7, 172), (8, 300)]"

definition VARS_6 :: "string list" where
  "VARS_6 =
    [''c1000bbit'']"

definition MAP_7 :: "(int \<times> real) list" where
  "MAP_7 =
    [(1, 50000), (2, 200000), (3, 400000), (4, 600000), (5, 850000), (6, 1250000),
     (7, 2250000), (8, 4000000), (9, 6000000), (10, 8500000), (11, 12500000),
     (12, 17500000), (13, 30000000)]"

definition VARS_7 :: "string list" where
  "VARS_7 =
    [''c1000bdit'']"

definition MAP_8 :: "(int \<times> real) list" where
  "MAP_8 =
    [(1, 5000), (2, 15000), (3, 35000), (4, 75000), (5, 150000), (6, 250000), (7, 400000),
     (8, 750000), (9, 1500000), (10, 3500000), (11, 6000000), (12, 8500000), (13, 12500000),
     (14, 17500000), (15, 30000000)]"

definition VARS_8 :: "string list" where
  "VARS_8 =
    [''c2000fit'']"

definition MAP_9 :: "(int \<times> real) list" where
  "MAP_9 =
    [(1, 5000), (2, 20000), (3, 40000), (4, 60000), (5, 85000), (6, 200000), (7, 400000),
     (8, 750000), (9, 3000000), (10, 7500000), (11, 12500000), (12, 17500000),
     (13, 30000000)]"

definition VARS_9 :: "string list" where
  "VARS_9 =
    [''c2013it'', ''c2016it'']"

definition MAP_10 :: "(int \<times> real) list" where
  "MAP_10 =
    [(1, 50000), (2, 150000), (3, 350000), (4, 650000), (5, 900000), (6, 1250000),
     (7, 1750000), (8, 3500000), (9, 6500000), (10, 9000000), (11, 15000000)]"

definition VARS_10 :: "string list" where
  "VARS_10 =
    [''c2027dit'', ''c2032it'', ''c2064it'']"

definition MAP_11 :: "(int \<times> real) list" where
  "MAP_11 =
    [(1, 500), (2, 2000), (3, 4000), (4, 6500), (5, 9000), (6, 12500), (7, 17500),
     (8, 25000), (9, 40000), (10, 75000)]"

definition VARS_11 :: "string list" where
  "VARS_11 =
    [''c2045it'']"

definition MAP_12 :: "(int \<times> real) list" where
  "MAP_12 =
    [(1, 25000), (2, 75000), (3, 150000), (4, 250000), (5, 400000), (6, 650000),
     (7, 900000), (8, 1250000), (9, 1750000), (10, 3500000), (11, 7500000)]"

definition VARS_12 :: "string list" where
  "VARS_12 =
    [''c3002it'', ''c3002ait'']"

definition MAP_13 :: "(int \<times> real) list" where
  "MAP_13 =
    [(1, 5000), (2, 15000), (3, 35000), (4, 75000), (5, 150000), (6, 250000), (7, 400000),
     (8, 750000), (9, 1500000), (10, 3500000), (11, 7500000)]"

definition VARS_13 :: "string list" where
  "VARS_13 =
    [''c3024it'', ''c3025it'', ''d4111it'', ''d6116it'']"

definition MAP_14 :: "(int \<times> real) list" where
  "MAP_14 =
    [(1, 1000), (2, 3500), (3, 7500), (4, 15000), (5, 35000), (6, 75000), (7, 125000),
     (8, 175000), (9, 250000), (10, 400000), (11, 750000)]"

definition VARS_14 :: "string list" where
  "VARS_14 =
    [''c8002ait'', ''g1017it'', ''g1018it'', ''g1019it'', ''g1019ait'', ''g1020it'',
     ''c8005ait'', ''f2006it'', ''f4011it'']"

definition MAP_15 :: "(int \<times> real) list" where
  "MAP_15 =
    [(1, 10000), (2, 35000), (3, 75000), (4, 150000), (5, 350000), (6, 750000),
     (7, 1500000), (8, 3500000), (9, 7500000), (10, 15000000), (11, 30000000)]"

definition VARS_15 :: "string list" where
  "VARS_15 =
    [''d8106it'']"

definition MAP_16 :: "(int \<times> real) list" where
  "MAP_16 =
    [(1, 5000), (2, 15000), (3, 35000), (4, 75000), (5, 150000), (6, 250000), (7, 400000),
     (8, 750000), (9, 1500000), (10, 3500000), (11, 7500000)]"

definition VARS_16 :: "string list" where
  "VARS_16 =
    [''e3005cit'']"

definition MAP_17 :: "(int \<times> real) list" where
  "MAP_17 =
    [(1, 25), (2, 75), (3, 125), (4, 225), (5, 400), (6, 650), (7, 1150), (8, 2250),
     (9, 4000), (10, 7500), (11, 15000), (12, 25000), (13, 40000), (14, 75000)]"

definition VARS_17 :: "string list" where
  "VARS_17 =
    [''f1005it'']"

definition MAP_18 :: "(int \<times> real) list" where
  "MAP_18 =
    [(1, 100), (2, 250), (3, 400), (5, 750), (6, 1500), (7, 2500), (8, 4000), (9, 6500),
     (10, 11500), (11, 17500), (12, 30000)]"

definition VARS_18 :: "string list" where
  "VARS_18 =
    [''f4005it'']"

definition MAP_19 :: "(int \<times> real) list" where
  "MAP_19 =
    [(1, 500), (2, 2000), (3, 4000), (5, 7500), (6, 15000), (7, 35000), (8, 75000),
     (9, 125000), (10, 175000), (11, 250000), (12, 400000), (13, 750000), (14, 1500000)]"

definition VARS_19 :: "string list" where
  "VARS_19 =
    [''f4008it'']"

definition MAP_20 :: "(int \<times> real) list" where
  "MAP_20 =
    [(1, 250), (2, 750), (3, 1500), (4, 3500), (5, 7500), (6, 15000), (7, 30000)]"

definition VARS_20 :: "string list" where
  "VARS_20 =
    [''h3351it'']"

definition MAP_21 :: "(int \<times> real) list" where
  "MAP_21 =
    [(1, 250), (2, 750), (3, 2000), (4, 4000), (5, 7500), (6, 15000), (7, 35000),
     (8, 75000)]"

definition VARS_21 :: "string list" where
  "VARS_21 =
    [''h3354it'', ''h3356it'']"

definition MAP_22 :: "(int \<times> real) list" where
  "MAP_22 =
    [(1, 50), (2, 300), (3, 750), (4, 3000), (5, 7500), (6, 30000), (7, 75000)]"

definition VARS_22 :: "string list" where
  "VARS_22 =
    [''h3367it'', ''h3368it'', ''h3369it'']"

definition MAP_23 :: "(int \<times> real) list" where
  "MAP_23 =
    [(1, 150), (2, 450), (3, 800), (4, 1250), (5, 2250), (6, 4500), (7, 8000), (8, 15000),
     (9, 35000), (10, 75000), (11, 150000)]"

definition VARS_23 :: "string list" where
  "VARS_23 =
    [''g1024it'']"

definition REGISTRY :: "(string list \<times> (int \<times> real) list) list" where
  "REGISTRY =
    [(VARS_1, MAP_1), (VARS_2, MAP_2), (VARS_3, MAP_3), (VARS_4, MAP_4), (VARS_5, MAP_5),
     (VARS_6, MAP_6), (VARS_7, MAP_7), (VARS_8, MAP_8), (VARS_9, MAP_9), (VARS_10, MAP_10),
     (VARS_11, MAP_11), (VARS_12, MAP_12), (VARS_13, MAP_13), (VARS_14, MAP_14),
     (VARS_15, MAP_15), (VARS_16, MAP_16), (VARS_17, MAP_17), (VARS_18, MAP_18),
     (VARS_19, MAP_19), (VARS_20, MAP_20), (VARS_21, MAP_21), (VARS_22, MAP_22),
     (VARS_23, MAP_23)]"

text \<open>
  \<open>_VAR_TO_MAP\<close>: the two nested loops that flatten the registry into one dict; a later
  assignment to the same key would replace an earlier one.
\<close>

definition VAR_TO_MAP :: "string \<rightharpoonup> (int \<times> real) list" where
  "VAR_TO_MAP =
     fold (\<lambda>(vars, mp) d. fold (\<lambda>v d'. d'(v \<mapsto> mp)) vars d) REGISTRY Map.empty"

text \<open>\<open>s.rsplit("_", 1)\<close>: split at the last underscore, if there is one.\<close>

definition rsplit1 :: "string \<Rightarrow> string list" where
  "rsplit1 s =
     (let r = rev s;
          after = takeWhile (\<lambda>c. c \<noteq> CHR ''_'') r;
          rest = dropWhile (\<lambda>c. c \<noteq> CHR ''_'') r
      in if rest = [] then [s] else [rev (tl rest), rev after])"

text \<open>\<open>str.isdigit\<close> on ASCII text: non-empty and decimal digits only.\<close>

definition isdigit :: "string \<Rightarrow> bool" where
  "isdigit s = (s \<noteq> [] \<and> list_all (\<lambda>c. c \<in> set ''0123456789'') s)"

definition normalise_var_name :: "string \<Rightarrow> string" where
  "normalise_var_name var_name =
     (case rsplit1 var_name of
        [a, b] \<Rightarrow> if isdigit b then a else var_name
      | _ \<Rightarrow> var_name)"

definition get_midpoint :: "fl \<Rightarrow> string \<Rightarrow> py_error + fl" where
  "get_midpoint interval_code var_name =
     (if isna interval_code then Inr NaN
      else case VAR_TO_MAP (normalise_var_name var_name) of
             None \<Rightarrow> Inr NaN
           | Some mapping \<Rightarrow>
               (case py_int interval_code of
                  Inl e \<Rightarrow> Inl e
                | Inr k \<Rightarrow> Inr (case map_of mapping k of Some y \<Rightarrow> Fin y | None \<Rightarrow> NaN)))"

section \<open>Tables of rows\<close>

text \<open>
  A \<open>DataFrame\<close> is its ordered column labels and its rows in index order; the index is the
  default positional one (what \<open>pd.merge\<close> and the loaders produce).  A row gives the cell
  under each label; labels that are not columns of the frame are never read.
\<close>

type_synonym row = "string \<Rightarrow> fl"

record frame =
  columns :: "string list"
  rows :: "row list"

definition series :: "frame \<Rightarrow> string \<Rightarrow> fl list" where
  "series df c = map (\<lambda>r. r c) (rows df)"

text \<open>\<open>df[c] = ...\<close> with a value computed row by row: a new label goes last.\<close>

definition assign :: "string \<Rightarrow> (row \<Rightarrow> fl) \<Rightarrow> frame \<Rightarrow> frame" where
  "assign c f df =
     \<lparr>columns = (if c \<in> set (columns df) then columns df else columns df @ [c]),
      rows = map (\<lambda>r. r(c := f r)) (rows df)\<rparr>"

text \<open>\<open>df[c] = s\<close> for a positional series \<open>s\<close> of the frame's length.\<close>

definition assign_series :: "string \<Rightarrow> fl list \<Rightarrow> frame \<Rightarrow> frame" where
  "assign_series c s df =
     \<lparr>columns = (if c \<in> set (columns df) then columns df else columns df @ [c]),
      rows = map (\<lambda>(r, v). r(c := v)) (zip (rows df) s)\<rparr>"

text \<open>\<open>df.loc[mask, c] = v\<close>.\<close>

definition loc_set :: "(row \<Rightarrow> bool) \<Rightarrow> string \<Rightarrow> fl \<Rightarrow> frame \<Rightarrow> frame" where
  "loc_set msk c v df = df\<lparr>rows := map (\<lambda>r. if msk r then r(c := v) else r) (rows df)\<rparr>"

text \<open>\<open>df[mask]\<close>.\<close>

definition filter_rows :: "(row \<Rightarrow> bool) \<Rightarrow> frame \<Rightarrow> frame" where
  "filter_rows p df = df\<lparr>rows := filter p (rows df)\<rparr>"

fun traverse :: "('a \<Rightarrow> py_error + 'b) \<Rightarrow> 'a list \<Rightarrow> py_error + 'b list" where
  "traverse f [] = Inr []"
| "traverse f (x # xs) =
     (case f x of
        Inl e \<Rightarrow> Inl e
      | Inr y \<Rightarrow> (case traverse f xs of Inl e \<Rightarrow> Inl e | Inr ys \<Rightarrow> Inr (y # ys)))"

record Settings =
  survey_year :: int
  head_min_age :: int
  sibling_max_age :: int
  winsorize_limits :: "real \<times> real"
  epsilon :: real
  log_dv_constant :: real

definition default_settings :: Settings where
  "default_settings =
     \<lparr>survey_year = 2017, head_min_age = 16, sibling_max_age = 40,
      winsorize_limits = (1 / 100, 1 / 100), epsilon = 1 / 10 ^ 9,
      log_dv_constant = 1 / 1000\<rparr>"

section \<open>Feature engineering (\<open>src/processing/features.py\<close>)\<close>

record VarSpec =
  exact :: string
  interval :: "string option"

definition coalesced_name :: "VarSpec \<Rightarrow> string" where
  "coalesced_name spec = exact spec @ ''_val''"

definition ASSET_VEHICLE_IN_BUSINESS :: VarSpec where
  "ASSET_VEHICLE_IN_BUSINESS = \<lparr>exact = ''c7062'', interval = Some ''c7062it''\<rparr>"

definition get_midpoint_series :: "fl list \<Rightarrow> string \<Rightarrow> py_error + fl list" where
  "get_midpoint_series s var_name = traverse (\<lambda>x. get_midpoint x var_name) s"

definition combine_first :: "fl list \<Rightarrow> fl list \<Rightarrow> fl list" where
  "combine_first a b = map (\<lambda>(x, y). if isna x then y else x) (zip a b)"

definition coalesce_var :: "frame \<Rightarrow> VarSpec \<Rightarrow> py_error + fl list" where
  "coalesce_var df spec =
     (let exact_series =
            (if exact spec \<in> set (columns df) then series df (exact spec)
             else map (\<lambda>_. NaN) (rows df))
      in case interval spec of
           None \<Rightarrow> Inr exact_series
         | Some iv \<Rightarrow>
             if iv \<noteq> [] \<and> iv \<in> set (columns df) then
               (case get_midpoint_series (series df iv) iv of
                  Inl e \<Rightarrow> Inl e
                | Inr midpoint_series \<Rightarrow> Inr (combine_first exact_series midpoint_series))
             else Inr exact_series)"

text \<open>\<open>df[cols].fillna(0).sum(axis=1)\<close>, one row.\<close>

definition row_total :: "string list \<Rightarrow> row \<Rightarrow> fl" where
  "row_total cols r = foldl fl_add (Fin 0) (map (\<lambda>c. fillna (Fin 0) (r c)) cols)"

text \<open>A cell's contribution to a total: its value, zero when it is undefined.\<close>

fun value0 :: "fl \<Rightarrow> real" where
  "value0 (Fin v) = v"
| "value0 _ = 0"

definition clip_lower :: "fl \<Rightarrow> fl \<Rightarrow> fl" where
  "clip_lower lo x = (if fl_lt x lo then lo else x)"

definition compute_totals :: "frame \<Rightarrow> string list \<Rightarrow> string list \<Rightarrow> py_error + frame" where
  "compute_totals df debt_cols asset_cols =
     (if \<not> list_all (\<lambda>c. c \<in> set (columns df)) debt_cols then Inl KeyError
      else
        let df1 = assign ''total_debt'' (row_total debt_cols) df in
        if \<not> list_all (\<lambda>c. c \<in> set (columns df1)) asset_cols then Inl KeyError
        else
          let df2 = assign ''total_assets_raw'' (row_total asset_cols) df1 in
          case coalesce_var df2 ASSET_VEHICLE_IN_BUSINESS of
            Inl e \<Rightarrow> Inl e
          | Inr v \<Rightarrow>
              let vib = map (fillna (Fin 0)) v in
              Inr (assign_series ''total_assets''
                     (map (\<lambda>(a, b). clip_lower (Fin 0) (fl_sub a b))
                        (zip (series df2 ''total_assets_raw'') vib))
                     df2))"

subsection \<open>Winsorisation\<close>

text \<open>The order numpy sorts floats in: \<open>-inf\<close>, the finite values, \<open>+inf\<close>, then \<open>NaN\<close>.\<close>

fun fl_key :: "fl \<Rightarrow> nat \<times> real" where
  "fl_key NInf = (0, 0)"
| "fl_key (Fin v) = (1, v)"
| "fl_key PInf = (2, 0)"
| "fl_key NaN = (3, 0)"

definition argsort :: "fl list \<Rightarrow> nat list" where
  "argsort a = sort_key (\<lambda>i. fl_key (a ! i)) [0..<length a]"

text \<open>\<open>a[idxs] = v\<close> for in-range positions.\<close>

definition put :: "nat list \<Rightarrow> fl \<Rightarrow> fl list \<Rightarrow> fl list" where
  "put idxs v a = fold (\<lambda>i b. b[i := v]) idxs a"

text \<open>
  Modelled from the spec: \<open>scipy.stats.mstats.winsorize\<close> is library code that is not part
  of the repository sources.  The spec describes it as clamping the extreme tails
  symmetrically by fraction of observations.  The definition follows the routine as it is
  called here (\<open>limits\<close> a pair, both tails inclusive, one dimension): the
  \<open>int(lolim * n)\<close> smallest entries are set to the next smallest one, the
  \<open>int(n * uplim)\<close> largest entries to the next largest one, the positions being taken
  from one sort of the input.
\<close>

definition low_positions :: "fl list \<Rightarrow> real \<Rightarrow> nat list" where
  "low_positions a lolim = take (nat \<lfloor>lolim * real (length a)\<rfloor>) (argsort a)"

definition up_positions :: "fl list \<Rightarrow> real \<Rightarrow> nat list" where
  "up_positions a uplim = drop (length a - nat \<lfloor>real (length a) * uplim\<rfloor>) (argsort a)"

definition winsorize :: "fl list \<Rightarrow> real \<times> real \<Rightarrow> py_error + fl list" where
  "winsorize a limits =
     (let (lolim, uplim) = limits; n = length a; idx = argsort a in
      if lolim < 0 \<or> 1 < lolim \<or> uplim < 0 \<or> 1 < uplim then Inl ValueError
      else if n = 0 then Inl IndexError
      else
        let lowidx = nat \<lfloor>lolim * real n\<rfloor>; upidx = n - nat \<lfloor>real n * uplim\<rfloor> in
        if lolim \<noteq> 0 \<and> n \<le> lowidx then Inl IndexError
        else
          let a1 = (if lolim \<noteq> 0 then put (low_positions a lolim) (a ! (idx ! lowidx)) a
                    else a);
              upper = a1 ! (idx ! (if upidx = 0 then n - 1 else upidx - 1))
          in Inr (put (up_positions a uplim) upper a1))"

subsection \<open>Debt ratio\<close>

definition replace_inf :: "fl list \<Rightarrow> fl list" where
  "replace_inf s = map (\<lambda>x. if isinf x then NaN else x) s"

text \<open>\<open>s.dropna()\<close>: the defined entries with their index labels.\<close>

definition dropna :: "fl list \<Rightarrow> (nat \<times> fl) list" where
  "dropna s = filter (\<lambda>(i, x). \<not> isna x) (zip [0..<length s] s)"

text \<open>
  \<open>pd.Series(vals, index=idx)\<close> assigned to a column of a frame with \<open>n\<close> rows: aligned on
  the index, \<open>NaN\<close> where the series has no entry.
\<close>

definition reindex :: "nat \<Rightarrow> nat list \<Rightarrow> fl list \<Rightarrow> fl list" where
  "reindex n idx vals =
     map (\<lambda>i. case map_of (zip idx vals) i of Some v \<Rightarrow> v | None \<Rightarrow> NaN) [0..<n]"

fun fl_log :: "fl \<Rightarrow> fl" where
  "fl_log (Fin v) = (if 0 < v then Fin (ln v) else if v = 0 then NInf else NaN)"
| "fl_log PInf = PInf"
| "fl_log _ = NaN"

text \<open>Lines 120 to 122: the raw ratio and its two overrides.\<close>

definition raw_debt_ratio :: "frame \<Rightarrow> Settings \<Rightarrow> frame" where
  "raw_debt_ratio df cfg =
     (let eps = epsilon cfg;
          df1 = assign ''debt_ratio''
                  (\<lambda>r. fl_div (r ''total_debt'') (fl_add (r ''total_assets'') (Fin eps))) df;
          df2 = loc_set (\<lambda>r. fl_eq (r ''total_debt'') (Fin 0) \<and> fl_eq (r ''total_assets'') (Fin 0))
                  ''debt_ratio'' (Fin 0) df1
      in loc_set (\<lambda>r. fl_gt (r ''total_debt'') (Fin 0) \<and> fl_eq (r ''total_assets'') (Fin 0))
           ''debt_ratio'' NaN df2)"

text \<open>Lines 124 to 135: winsorise the defined ratios and write them back by index.\<close>

definition winsorise_stage :: "frame \<Rightarrow> Settings \<Rightarrow> py_error + frame" where
  "winsorise_stage df3 cfg =
     (let clean = dropna (replace_inf (series df3 ''debt_ratio'')) in
      if clean \<noteq> [] then
        (case winsorize (map snd clean) (winsorize_limits cfg) of
           Inl e \<Rightarrow> Inl e
         | Inr win_vals \<Rightarrow>
             Inr (assign_series ''debt_ratio_winsorized''
                    (reindex (length (rows df3)) (map fst clean) win_vals) df3))
      else Inr (assign ''debt_ratio_winsorized'' (\<lambda>_. NaN) df3))"

text \<open>Lines 137 to 143: the log transform.\<close>

definition log_stage :: "frame \<Rightarrow> Settings \<Rightarrow> frame" where
  "log_stage df4 cfg =
     assign ''log_debt_ratio_winsorized''
       (\<lambda>r. let log_input = fl_add (r ''debt_ratio_winsorized'') (Fin (log_dv_constant cfg))
             in fl_log (if fl_gt log_input (Fin 0) then log_input else NaN))
       df4"

definition compute_debt_ratio :: "frame \<Rightarrow> Settings \<Rightarrow> py_error + frame" where
  "compute_debt_ratio df cfg =
     (if ''total_debt'' \<notin> set (columns df) \<or> ''total_assets'' \<notin> set (columns df)
      then Inl KeyError
      else case winsorise_stage (raw_debt_ratio df cfg) cfg of
             Inl e \<Rightarrow> Inl e
           | Inr df4 \<Rightarrow> Inr (log_stage df4 cfg))"

section \<open>Head extraction (\<open>src/data/loader.py\<close>)\<close>

definition HEAD_COLS_MAP :: "(string \<times> string) list" where
  "HEAD_COLS_MAP =
     [(''hhid'', ''hhid''), (''head_age'', ''head_age''), (''a2003'', ''head_sex''),
      (''a2012'', ''head_educ''), (''a2024'', ''head_marital''), (''a2025b'', ''head_health''),
      (''head_siblings'', ''head_siblings'')]"

text \<open>\<open>df[cols].rename(columns=m)\<close>: the selected cells under their new labels.\<close>

definition select_rename :: "(string \<times> string) list \<Rightarrow> frame \<Rightarrow> frame" where
  "select_rename m df =
     \<lparr>columns = map snd m,
      rows = map (\<lambda>r. fold (\<lambda>(old, new) r'. r'(new := r old)) m (\<lambda>_. NaN)) (rows df)\<rparr>"

text \<open>\<open>drop_duplicates(subset=[k], keep="first")\<close>.\<close>

fun drop_dup_rows :: "string \<Rightarrow> fl list \<Rightarrow> row list \<Rightarrow> row list" where
  "drop_dup_rows k seen [] = []"
| "drop_dup_rows k seen (r # rs) =
     (if r k \<in> set seen then drop_dup_rows k seen rs
      else r # drop_dup_rows k (r k # seen) rs)"

definition drop_duplicates :: "string \<Rightarrow> frame \<Rightarrow> frame" where
  "drop_duplicates k df = df\<lparr>rows := drop_dup_rows k [] (rows df)\<rparr>"

text \<open>
  The frame \<open>heads\<close> as it stands after line 102: heads selected, aged, filtered by the
  minimum age, with the two sibling columns.  \<open>ensure_col\<close> is the body of the loop over
  the two sibling fields.
\<close>

definition ensure_col :: "string \<Rightarrow> frame \<Rightarrow> frame" where
  "ensure_col col h = (if col \<notin> set (columns h) then assign col (\<lambda>_. Fin 0) h else h)"

definition heads_frame :: "frame \<Rightarrow> Settings \<Rightarrow> frame" where
  "heads_frame ind_df cfg =
     (let heads0 = filter_rows (\<lambda>r. fl_eq (r ''a2001'') (Fin 1)) ind_df;
          heads1 = assign ''head_age''
                     (\<lambda>r. fl_sub (Fin (of_int (survey_year cfg))) (r ''a2005'')) heads0;
          heads2 = filter_rows
                     (\<lambda>r. fl_ge (r ''head_age'') (Fin (of_int (head_min_age cfg)))) heads1;
          heads3 = fold ensure_col [''a2028'', ''a2029''] heads2;
          heads4 = assign ''head_siblings_raw''
                     (\<lambda>r. fl_add (fillna (Fin 0) (r ''a2028'')) (fillna (Fin 0) (r ''a2029'')))
                     heads3
      in assign ''head_siblings''
           (\<lambda>r. if fl_le (r ''head_age'') (Fin (of_int (sibling_max_age cfg)))
                 then r ''head_siblings_raw'' else NaN)
           heads4)"

definition extract_heads :: "frame \<Rightarrow> Settings \<Rightarrow> py_error + frame" where
  "extract_heads ind_df cfg =
     (if ''a2001'' \<notin> set (columns ind_df) then Inl DataLoadError
      else if ''a2005'' \<notin> set (columns ind_df) then Inl DataLoadError
      else
        let heads = heads_frame ind_df cfg;
            rename_map = filter (\<lambda>(k, v). k \<in> set (columns heads)) HEAD_COLS_MAP;
            result = select_rename rename_map heads
        in if ''hhid'' \<notin> set (columns result) then Inl KeyError
           else Inr (drop_duplicates ''hhid'' result))"

section \<open>Merge (\<open>src/processing/merge.py\<close>)\<close>

text \<open>
  \<open>pd.merge(left, right, on=key, how="left")\<close>: every left row in order, once for each right
  row with the same key (in the right table's order), or once with undefined right cells
  when there is none.  Labels other than the key that both tables have get the suffixes
  \<open>_x\<close> and \<open>_y\<close>; suffixes that produce a duplicate label are refused.
\<close>

definition left_label :: "string \<Rightarrow> frame \<Rightarrow> string \<Rightarrow> string" where
  "left_label key right c = (if c \<noteq> key \<and> c \<in> set (columns right) then c @ ''_x'' else c)"

definition right_label :: "frame \<Rightarrow> string \<Rightarrow> string" where
  "right_label left c = (if c \<in> set (columns left) then c @ ''_y'' else c)"

definition merged_row :: "string \<Rightarrow> frame \<Rightarrow> frame \<Rightarrow> row \<Rightarrow> row option \<Rightarrow> row" where
  "merged_row key left right r s =
     fold (\<lambda>c m. m(right_label left c := (case s of Some q \<Rightarrow> q c | None \<Rightarrow> NaN)))
       (filter (\<lambda>c. c \<noteq> key) (columns right))
       (fold (\<lambda>c m. m(left_label key right c := r c)) (columns left) (\<lambda>_. NaN))"

definition matches :: "string \<Rightarrow> frame \<Rightarrow> row \<Rightarrow> row list" where
  "matches key right r = filter (\<lambda>q. q key = r key) (rows right)"

definition pd_merge_left :: "string \<Rightarrow> frame \<Rightarrow> frame \<Rightarrow> py_error + frame" where
  "pd_merge_left key left right =
     (if key \<notin> set (columns left) \<or> key \<notin> set (columns right) then Inl KeyError
      else
        let llabels = map (left_label key right) (columns left);
            rlabels = map (right_label left) (filter (\<lambda>c. c \<noteq> key) (columns right))
        in if \<not> distinct llabels \<or> \<not> distinct rlabels then Inl MergeError
           else
             Inr \<lparr>columns = llabels @ rlabels,
                  rows = concat (map (\<lambda>r. case matches key right r of
                                             [] \<Rightarrow> [merged_row key left right r None]
                                           | ms \<Rightarrow> map (\<lambda>q. merged_row key left right r (Some q)) ms)
                                   (rows left))\<rparr>)"

definition merge_head_into_household :: "frame \<Rightarrow> frame \<Rightarrow> py_error + frame" where
  "merge_head_into_household hh_df head_df =
     (case pd_merge_left ''hhid'' hh_df head_df of
        Inl e \<Rightarrow> Inl e
      | Inr merged \<Rightarrow>
          if length (rows merged) \<noteq> length (rows hh_df) then Inl ValueError
          else (case filter (\<lambda>c. c \<noteq> ''hhid'') (columns head_df) of
                  [] \<Rightarrow> Inl IndexError
                | c # _ \<Rightarrow> if c \<in> set (columns merged) then Inr merged else Inl KeyError))"

section \<open>Schema validation (\<open>src/data/schema.py\<close>, \<open>src/data/validator.py\<close>)\<close>

datatype DType = DType_FLOAT | DType_INT | DType_CATEGORICAL | DType_BINARY

record ColumnSchema =
  name :: string
  label :: string
  dtype :: DType
  nullable :: bool
  min_value :: "real option"
  max_value :: "real option"
  allowed_values :: "real list option"

text \<open>
  The free text of a violation is kept as the values it is formatted from.
\<close>

datatype detail =
  NotFound
| NullValues nat real
| BelowMinimum nat real fl
| AboveMaximum nat real fl
| OutsideAllowed nat "real list" "fl list"
| InfiniteValues nat

record Violation =
  column :: string
  rule :: string
  detail :: detail
  severity :: string

record ValidationReport =
  violations :: "Violation list"
  rows_checked :: nat
  columns_checked :: nat

definition is_valid :: "ValidationReport \<Rightarrow> bool" where
  "is_valid report = (\<not> list_ex (\<lambda>v. severity v = ''ERROR'') (violations report))"

definition error_count :: "ValidationReport \<Rightarrow> nat" where
  "error_count report = length (filter (\<lambda>v. severity v = ''ERROR'') (violations report))"

definition warning_count :: "ValidationReport \<Rightarrow> nat" where
  "warning_count report = length (filter (\<lambda>v. severity v = ''WARNING'') (violations report))"

definition mk_violation :: "string \<Rightarrow> string \<Rightarrow> detail \<Rightarrow> Violation" where
  "mk_violation c r d = \<lparr>column = c, rule = r, detail = d, severity = ''ERROR''\<rparr>"

text \<open>\<open>unique()\<close> keeps the first occurrence of each value, in order of appearance.\<close>

definition unique :: "fl list \<Rightarrow> fl list" where
  "unique xs = rev (remdups (rev xs))"

text \<open>The checks of \<open>_check_column\<close> that follow the nullability check (lines 101 to 145).\<close>

definition value_checks :: "string \<Rightarrow> ColumnSchema \<Rightarrow> fl list \<Rightarrow> Violation list" where
  "value_checks col schema non_null =
     (case min_value schema of
        None \<Rightarrow> []
      | Some lo \<Rightarrow>
          let below = length (filter (\<lambda>x. fl_lt x (Fin lo)) non_null) in
          if 0 < below
          then [mk_violation col ''BELOW_MIN''
                  (BelowMinimum below lo (hd (sort_key fl_key non_null)))]
          else [])
     @ (case max_value schema of
          None \<Rightarrow> []
        | Some hi \<Rightarrow>
            let above = length (filter (\<lambda>x. fl_gt x (Fin hi)) non_null) in
            if 0 < above
            then [mk_violation col ''ABOVE_MAX''
                    (AboveMaximum above hi (last (sort_key fl_key non_null)))]
            else [])
     @ (case allowed_values schema of
          None \<Rightarrow> []
        | Some allowed \<Rightarrow>
            let invalid = filter (\<lambda>x. x \<notin> Fin ` set allowed) non_null;
                n_invalid = length invalid
            in if 0 < n_invalid
               then [mk_violation col ''INVALID_VALUES''
                       (OutsideAllowed n_invalid (sort (remdups allowed))
                          (sort_key fl_key (take 5 (unique invalid))))]
               else [])
     @ (let inf_count = length (filter isinf non_null) in
        if 0 < inf_count then [mk_violation col ''INFINITE_VALUES'' (InfiniteValues inf_count)]
        else [])"

definition check_column :: "frame \<Rightarrow> ColumnSchema \<Rightarrow> Violation list" where
  "check_column df schema =
     (let col = name schema in
      if col \<notin> set (columns df) then [mk_violation col ''MISSING_COLUMN'' NotFound]
      else
        let s = series df col;
            null_count = length (filter isna s);
            pct = real null_count / real (length s) * 100;
            nulls =
              (if 0 < null_count then
                 (if \<not> nullable schema
                  then [mk_violation col ''NOT_NULLABLE'' (NullValues null_count pct)]
                  else if 80 < pct
                  then [\<lparr>column = col, rule = ''HIGH_MISSING'',
                         detail = NullValues null_count pct, severity = ''WARNING''\<rparr>]
                  else [])
               else []);
            non_null = filter (\<lambda>x. \<not> isna x) s
        in if non_null = [] then nulls else nulls @ value_checks col schema non_null)"

definition ANALYSIS_SCHEMA :: "ColumnSchema list" where
  "ANALYSIS_SCHEMA =
     [\<lparr>name = ''hhid'', label = ''Household ID'', dtype = DType_INT, nullable = False,
        min_value = None, max_value = None, allowed_values = None\<rparr>,
      \<lparr>name = ''head_siblings'', label = ''Number of siblings (head, age <= 40)'', dtype = DType_FLOAT, nullable = True,
        min_value = Some 0, max_value = Some 30, allowed_values = None\<rparr>,
      \<lparr>name = ''debt_ratio_winsorized'', label = ''Debt-to-asset ratio (winsorized 1%)'', dtype = DType_FLOAT, nullable = True,
        min_value = Some 0, max_value = None, allowed_values = None\<rparr>,
      \<lparr>name = ''log_debt_ratio_winsorized'', label = ''Log debt-to-asset ratio'', dtype = DType_FLOAT, nullable = True,
        min_value = None, max_value = None, allowed_values = None\<rparr>,
      \<lparr>name = ''total_debt'', label = ''Total household debt (CNY)'', dtype = DType_FLOAT, nullable = True,
        min_value = Some 0, max_value = None, allowed_values = None\<rparr>,
      \<lparr>name = ''total_assets'', label = ''Total household assets (CNY)'', dtype = DType_FLOAT, nullable = True,
        min_value = Some 0, max_value = None, allowed_values = None\<rparr>,
      \<lparr>name = ''head_age'', label = ''Head age (years)'', dtype = DType_FLOAT, nullable = True,
        min_value = Some 16, max_value = Some 120, allowed_values = None\<rparr>,
      \<lparr>name = ''head_is_male'', label = ''Head is male (1/0)'', dtype = DType_BINARY, nullable = True,
        min_value = None, max_value = None, allowed_values = Some [0, 1]\<rparr>,
      \<lparr>name = ''head_educ'', label = ''Head education level'', dtype = DType_CATEGORICAL, nullable = True,
        min_value = Some 1, max_value = Some 9, allowed_values = None\<rparr>,
      \<lparr>name = ''head_is_married'', label = ''Head is married (1/0)'', dtype = DType_BINARY, nullable = True,
        min_value = None, max_value = None, allowed_values = Some [0, 1]\<rparr>,
      \<lparr>name = ''head_health'', label = ''Head self-rated health (1=best .. 5=worst)'', dtype = DType_CATEGORICAL, nullable = True,
        min_value = Some 1, max_value = Some 5, allowed_values = None\<rparr>,
      \<lparr>name = ''has_business'', label = ''Household owns a business (1/0)'', dtype = DType_BINARY, nullable = True,
        min_value = None, max_value = None, allowed_values = Some [0, 1]\<rparr>,
      \<lparr>name = ''num_houses'', label = ''Number of houses owned'', dtype = DType_FLOAT, nullable = True,
        min_value = Some 0, max_value = None, allowed_values = None\<rparr>,
      \<lparr>name = ''log_total_assets'', label = ''Log(total_assets + 1)'', dtype = DType_FLOAT, nullable = True,
        min_value = Some 0, max_value = None, allowed_values = None\<rparr>]"

definition validate :: "frame \<Rightarrow> ColumnSchema list option \<Rightarrow> ValidationReport" where
  "validate df schema =
     (let schema = (case schema of None \<Rightarrow> ANALYSIS_SCHEMA | Some s \<Rightarrow> s) in
      \<lparr>violations = concat (map (check_column df) schema),
       rows_checked = length (rows df),
       columns_checked = length schema\<rparr>)"

section \<open>Example tables\<close>

text \<open>A row given by its cells, as a record of a test fixture is; other labels are undefined.\<close>

definition mkrow :: "(string \<times> fl) list \<Rightarrow> row" where
  "mkrow kv = (\<lambda>c. case map_of kv c of Some v \<Rightarrow> v | None \<Rightarrow> NaN)"

definition example_totals :: frame where
  "example_totals =
     \<lparr>columns = [''total_debt'', ''total_assets''],
      rows = [mkrow [(''total_debt'', Fin 0), (''total_assets'', Fin 0)],
              mkrow [(''total_debt'', Fin 5), (''total_assets'', Fin 0)],
              mkrow [(''total_debt'', Fin 5), (''total_assets'', Fin 10)],
              mkrow [(''total_debt'', Fin 50), (''total_assets'', Fin 10)],
              mkrow [(''total_debt'', Fin 1), (''total_assets'', Fin 10)]]\<rparr>"

definition example_settings :: Settings where
  "example_settings = default_settings\<lparr>winsorize_limits := (1 / 4, 1 / 4), epsilon := 0\<rparr>"

definition example_car_debt :: frame where
  "example_car_debt =
     \<lparr>columns = [''c7060'', ''c7060it''],
      rows = [mkrow [(''c7060'', Fin 1000), (''c7060it'', NaN)],
              mkrow [(''c7060'', NaN), (''c7060it'', Fin 3)],
              mkrow [(''c7060'', NaN), (''c7060it'', NaN)],
              mkrow [(''c7060'', NaN), (''c7060it'', Fin 99)],
              mkrow [(''c7060'', Fin 500), (''c7060it'', Fin 2)]]\<rparr>"

definition example_coalesced :: frame where
  "example_coalesced =
     \<lparr>columns = [''c7060_val'', ''e4003_val'', ''c8002_val'', ''d1105_val'', ''c7062'', ''c7062it''],
      rows = [mkrow [(''c7060_val'', Fin 1000), (''e4003_val'', NaN), (''c8002_val'', Fin 300),
                     (''d1105_val'', NaN), (''c7062'', Fin 100), (''c7062it'', NaN)],
              mkrow [(''c7060_val'', NaN), (''e4003_val'', NaN), (''c8002_val'', Fin 2000),
                     (''d1105_val'', Fin 500), (''c7062'', NaN), (''c7062it'', Fin 1)],
              mkrow [(''c7060_val'', Fin 20), (''e4003_val'', Fin 30), (''c8002_val'', NaN),
                     (''d1105_val'', NaN), (''c7062'', NaN), (''c7062it'', NaN)]]\<rparr>"

definition example_individuals :: frame where
  "example_individuals =
     \<lparr>columns = [''hhid'', ''a2001'', ''a2005'', ''a2028''],
      rows = [mkrow [(''hhid'', Fin 5), (''a2001'', Fin 1), (''a2005'', Fin 1990), (''a2028'', Fin 2)],
              mkrow [(''hhid'', Fin 5), (''a2001'', Fin 1), (''a2005'', Fin 1991), (''a2028'', Fin 3)],
              mkrow [(''hhid'', Fin 6), (''a2001'', Fin 1), (''a2005'', NaN), (''a2028'', Fin 3)],
              mkrow [(''hhid'', Fin 7), (''a2001'', Fin 1), (''a2005'', Fin 1950), (''a2028'', Fin 3)],
              mkrow [(''hhid'', Fin 8), (''a2001'', Fin 2), (''a2005'', Fin 1980), (''a2028'', Fin 3)],
              mkrow [(''hhid'', Fin 9), (''a2001'', Fin 1), (''a2005'', Fin 1980), (''a2028'', NaN)]]\<rparr>"

definition example_ids :: frame where
  "example_ids =
     \<lparr>columns = [''id''],
      rows = [mkrow [(''id'', Fin 1)], mkrow [(''id'', NaN)], mkrow [(''id'', Fin 3)]]\<rparr>"

definition example_id_schema :: ColumnSchema where
  "example_id_schema =
     \<lparr>name = ''id'', label = ''ID'', dtype = DType_INT, nullable = False,
      min_value = None, max_value = None, allowed_values = None\<rparr>"

definition example_households :: frame where
  "example_households =
     \<lparr>columns = [''hhid'', ''income''],
      rows = [mkrow [(''hhid'', Fin 1), (''income'', Fin 100)],
              mkrow [(''hhid'', Fin 2), (''income'', Fin 200)],
              mkrow [(''hhid'', Fin 3), (''income'', Fin 300)]]\<rparr>"

definition example_heads :: frame where
  "example_heads =
     \<lparr>columns = [''hhid'', ''head_age''],
      rows = [mkrow [(''hhid'', Fin 1), (''head_age'', Fin 30)],
              mkrow [(''hhid'', Fin 2), (''head_age'', Fin 40)]]\<rparr>"

text \<open>A head table whose key repeats, on a household that is not in the household table.\<close>

definition example_heads_repeated :: frame where
  "example_heads_repeated =
     \<lparr>columns = [''hhid'', ''head_age''],
      rows = [mkrow [(''hhid'', Fin 5), (''head_age'', Fin 30)],
              mkrow [(''hhid'', Fin 5), (''head_age'', Fin 31)],
              mkrow [(''hhid'', Fin 2), (''head_age'', Fin 40)]]\<rparr>"

text \<open>A head table with the key column only.\<close>

definition example_heads_key_only :: frame where
  "example_heads_key_only =
     \<lparr>columns = [''hhid''], rows = [mkrow [(''hhid'', Fin 1)], mkrow [(''hhid'', Fin 2)]]\<rparr>"

text \<open>Five households without debt, and limits of two fifths at each tail.\<close>

definition example_debt_free :: frame where
  "example_debt_free =
     \<lparr>columns = [''total_debt'', ''total_assets''],
      rows = replicate 5 (mkrow [(''total_debt'', Fin 0), (''total_assets'', Fin 10)])\<rparr>"

definition example_wide_limits :: Settings where
  "example_wide_limits = default_settings\<lparr>winsorize_limits := (2 / 5, 2 / 5)\<rparr>"

section \<open>Properties of the midpoint resolver\<close>

lemmas VARS_defs = VARS_1_def VARS_2_def VARS_3_def VARS_4_def VARS_5_def VARS_6_def VARS_7_def
  VARS_8_def VARS_9_def VARS_10_def VARS_11_def VARS_12_def VARS_13_def VARS_14_def VARS_15_def
  VARS_16_def VARS_17_def VARS_18_def VARS_19_def VARS_20_def VARS_21_def VARS_22_def VARS_23_def

lemma registry_names_distinct: "distinct (concat (map fst REGISTRY))"
  unfolding REGISTRY_def VARS_defs by simp

lemma registry_names_plain: "list_all (\<lambda>v. CHR ''_'' \<notin> set v) (concat (map fst REGISTRY))"
  unfolding REGISTRY_def VARS_defs by simp

lemma fold_upd_names:
  "fold (\<lambda>v d'. d'(v \<mapsto> mp)) vars d k = (if k \<in> set vars then Some mp else d k)"
  by (induction vars arbitrary: d) auto

lemma fold_registry_none:
  "\<forall>p \<in> set reg. k \<notin> set (fst p) \<Longrightarrow>
   fold (\<lambda>(vars, mp) d. fold (\<lambda>v d'. d'(v \<mapsto> mp)) vars d) reg d0 k = d0 k"
  by (induction reg arbitrary: d0) (auto simp: fold_upd_names)

lemma fold_registry_lookup:
  "distinct (concat (map fst reg)) \<Longrightarrow> (vars, mp) \<in> set reg \<Longrightarrow> k \<in> set vars \<Longrightarrow>
   fold (\<lambda>(vars, mp) d. fold (\<lambda>v d'. d'(v \<mapsto> mp)) vars d) reg d0 k = Some mp"
proof (induction reg arbitrary: d0)
  case Nil
  then show ?case by simp
next
  case (Cons e reg)
  let ?F = "\<lambda>(vars, mp) d. fold (\<lambda>v d'. d'(v \<mapsto> mp)) vars d"
  obtain vs m where e: "e = (vs, m)" by (cases e)
  have step: "fold ?F (e # reg) d0 k = fold ?F reg (?F e d0) k" by simp
  show ?case
  proof (cases "(vars, mp) \<in> set reg")
    case True
    have "distinct (concat (map fst reg))" using Cons.prems(1) by simp
    from Cons.IH [OF this True Cons.prems(3)] show ?thesis unfolding step .
  next
    case False
    with Cons.prems e have eq: "vs = vars" "m = mp" by auto
    have notin: "\<forall>p \<in> set reg. k \<notin> set (fst p)"
      using Cons.prems(1,3) e eq by auto
    have "fold ?F reg (?F e d0) k = ?F e d0 k"
      using notin by (rule fold_registry_none)
    also have "?F e d0 k = Some mp"
      unfolding e eq using Cons.prems(3) by (simp add: fold_upd_names del: fun_upd_apply)
    finally show ?thesis unfolding step .
  qed
qed

lemma VAR_TO_MAP_registered:
  "(vars, mp) \<in> set REGISTRY \<Longrightarrow> v \<in> set vars \<Longrightarrow> VAR_TO_MAP v = Some mp"
  unfolding VAR_TO_MAP_def by (rule fold_registry_lookup [OF registry_names_distinct])

lemma VAR_TO_MAP_unregistered:
  "\<forall>p \<in> set REGISTRY. v \<notin> set (fst p) \<Longrightarrow> VAR_TO_MAP v = None"
  unfolding VAR_TO_MAP_def by (simp add: fold_registry_none)

lemma rsplit1_plain: "CHR ''_'' \<notin> set s \<Longrightarrow> rsplit1 s = [s]"
proof -
  assume a: "CHR ''_'' \<notin> set s"
  then have "dropWhile (\<lambda>c. c \<noteq> CHR ''_'') (rev s) = []" by (auto simp: dropWhile_eq_Nil_conv)
  then show ?thesis by (simp add: rsplit1_def)
qed

lemma rsplit1_suffix:
  assumes "CHR ''_'' \<notin> set d"
  shows "rsplit1 (x @ CHR ''_'' # d) = [x, d]"
proof -
  have r: "rev (x @ CHR ''_'' # d) = rev d @ CHR ''_'' # rev x" by simp
  have all: "\<And>c. c \<in> set (rev d) \<Longrightarrow> c \<noteq> CHR ''_''" using assms by auto
  have t: "takeWhile (\<lambda>c. c \<noteq> CHR ''_'') (rev d @ CHR ''_'' # rev x) = rev d"
    by (subst takeWhile_append2) (use all in auto)
  have dr: "dropWhile (\<lambda>c. c \<noteq> CHR ''_'') (rev d @ CHR ''_'' # rev x) = CHR ''_'' # rev x"
    by (subst dropWhile_append2) (use all in auto)
  show ?thesis unfolding rsplit1_def r by (simp add: t dr Let_def)
qed

lemma isdigit_no_underscore: "isdigit d \<Longrightarrow> CHR ''_'' \<notin> set d"
  by (auto simp: isdigit_def list_all_iff)

lemma normalise_plain: "CHR ''_'' \<notin> set s \<Longrightarrow> normalise_var_name s = s"
  by (simp add: normalise_var_name_def rsplit1_plain)

lemma normalise_suffix: "isdigit d \<Longrightarrow> normalise_var_name (x @ ''_'' @ d) = x"
  by (simp add: normalise_var_name_def rsplit1_suffix isdigit_no_underscore)

lemma registered_plain:
  assumes "(vars, mp) \<in> set REGISTRY" "v \<in> set vars"
  shows "CHR ''_'' \<notin> set v"
proof -
  have "v \<in> set (concat (map fst REGISTRY))" using assms by force
  with registry_names_plain show ?thesis unfolding list_all_iff by blast
qed

text \<open>
  A finite code is looked up under its integer part, whatever the name's table is.
\<close>

lemma get_midpoint_finite:
  assumes "(vars, mp) \<in> set REGISTRY" "v \<in> set vars"
  shows "get_midpoint (Fin r) v =
           Inr (case map_of mp (if 0 \<le> r then \<lfloor>r\<rfloor> else \<lceil>r\<rceil>) of
                  Some y \<Rightarrow> Fin y | None \<Rightarrow> NaN)"
proof -
  have "normalise_var_name v = v" using assms registered_plain normalise_plain by blast
  moreover have "VAR_TO_MAP v = Some mp" using assms by (rule VAR_TO_MAP_registered)
  ultimately show ?thesis by (simp add: get_midpoint_def isna_def)
qed

text \<open>
  The survey's codes are integers.  Of the other floats, a fractional code resolves under
  its integer part and an infinite one makes \<open>int\<close> raise.
\<close>

lemma get_midpoint_fractional_code: "get_midpoint (Fin (5 / 2)) ''d1105it'' = Inr (Fin 15000)"
  by code_simp

lemma get_midpoint_infinite_code: "get_midpoint PInf ''d1105it'' = Inl OverflowError"
  by code_simp

text \<open>
  Claim C8.  For a name registered in the table \<open>mp\<close> and an integer code \<open>k\<close>,
  \<open>get_midpoint\<close> returns the literal entry of \<open>mp\<close> at \<open>k\<close> when there is one and
  \<open>NaN\<close> when there is none; an undefined code gives \<open>NaN\<close> for every name; and a name
  whose base name is in no registered set gives \<open>NaN\<close> for every code.  No case gives zero
  in place of \<open>NaN\<close>.
\<close>

theorem get_midpoint_lookup:
  "get_midpoint NaN v = Inr NaN \<and>
   ((\<forall>p \<in> set REGISTRY. normalise_var_name v \<notin> set (fst p)) \<longrightarrow> get_midpoint c v = Inr NaN) \<and>
   ((vars, mp) \<in> set REGISTRY \<and> v \<in> set vars \<longrightarrow>
      get_midpoint (Fin (of_int k)) v =
        Inr (case map_of mp k of Some y \<Rightarrow> Fin y | None \<Rightarrow> NaN))"
proof (intro conjI impI)
  show "get_midpoint NaN v = Inr NaN" by (simp add: get_midpoint_def isna_def)
next
  assume "\<forall>p \<in> set REGISTRY. normalise_var_name v \<notin> set (fst p)"
  then have "VAR_TO_MAP (normalise_var_name v) = None" by (rule VAR_TO_MAP_unregistered)
  then show "get_midpoint c v = Inr NaN" by (simp add: get_midpoint_def)
next
  assume a: "(vars, mp) \<in> set REGISTRY \<and> v \<in> set vars"
  then have n: "normalise_var_name v = v" using registered_plain normalise_plain by blast
  have m: "VAR_TO_MAP v = Some mp" using a VAR_TO_MAP_registered by blast
  have i: "py_int (Fin (of_int k)) = Inr k" by simp
  show "get_midpoint (Fin (of_int k)) v =
        Inr (case map_of mp k of Some y \<Rightarrow> Fin y | None \<Rightarrow> NaN)"
    unfolding get_midpoint_def n m using i by (simp add: isna_def)
qed

theorem get_midpoint_lookup_witness:
  "(VARS_3, MAP_3) \<in> set REGISTRY \<and> ''d1105it'' \<in> set VARS_3 \<and>
   list_all (\<lambda>p. normalise_var_name ''nonexistent_var'' \<notin> set (fst p)) REGISTRY \<and>
   get_midpoint NaN ''d1105it'' = Inr NaN \<and>
   get_midpoint (Fin 1) ''nonexistent_var'' = Inr NaN \<and>
   get_midpoint (Fin 5) ''d1105it'' = Inr (Fin 150000) \<and>
   get_midpoint (Fin 999) ''d1105it'' = Inr NaN"
proof -
  have reg: "(VARS_3, MAP_3) \<in> set REGISTRY \<and> ''d1105it'' \<in> set VARS_3"
    by (simp add: REGISTRY_def VARS_3_def)
  have unreg: "\<forall>p \<in> set REGISTRY. normalise_var_name ''nonexistent_var'' \<notin> set (fst p)"
    by (simp add: REGISTRY_def VARS_defs normalise_var_name_def rsplit1_def isdigit_def)
  have a: "get_midpoint NaN ''d1105it'' = Inr NaN"
    using get_midpoint_lookup [of "''d1105it''" NaN VARS_3 MAP_3 5] by simp
  have b: "get_midpoint (Fin 1) ''nonexistent_var'' = Inr NaN"
    using get_midpoint_lookup [of "''nonexistent_var''" "Fin 1" VARS_3 MAP_3 5] unreg by blast
  have c: "get_midpoint (Fin 5) ''d1105it'' = Inr (Fin 150000)"
    using get_midpoint_lookup [of "''d1105it''" NaN VARS_3 MAP_3 5] reg
    by (simp add: MAP_3_def)
  have d: "get_midpoint (Fin 999) ''d1105it'' = Inr NaN"
    using get_midpoint_lookup [of "''d1105it''" NaN VARS_3 MAP_3 999] reg
    by (simp add: MAP_3_def)
  from reg unreg a b c d show ?thesis unfolding list_all_iff by blast
qed

text \<open>
  Claim C9.  For a registered base name \<open>x\<close> and a non-empty string of decimal digits
  \<open>d\<close>, resolving under \<open>x_d\<close> gives the same result as resolving under \<open>x\<close>, for every
  code (the special values included).
\<close>

theorem get_midpoint_suffix_insensitive:
  assumes "(vars, mp) \<in> set REGISTRY" "x \<in> set vars" "isdigit d"
  shows "get_midpoint c (x @ ''_'' @ d) = get_midpoint c x"
proof -
  have "normalise_var_name x = x" using assms registered_plain normalise_plain by blast
  moreover have "normalise_var_name (x @ ''_'' @ d) = x" using assms(3) by (rule normalise_suffix)
  ultimately show ?thesis by (simp add: get_midpoint_def)
qed

theorem get_midpoint_suffix_insensitive_witness:
  "(VARS_10, MAP_10) \<in> set REGISTRY \<and> ''c2064it'' \<in> set VARS_10 \<and> isdigit ''3'' \<and>
   get_midpoint (Fin 1) ''c2064it_3'' = get_midpoint (Fin 1) ''c2064it'' \<and>
   get_midpoint (Fin 1) ''c2064it'' = Inr (Fin 50000)"
proof -
  have reg: "(VARS_10, MAP_10) \<in> set REGISTRY" "''c2064it'' \<in> set VARS_10" "isdigit ''3''"
    by (simp_all add: REGISTRY_def VARS_10_def isdigit_def)
  have "get_midpoint (Fin 1) (''c2064it'' @ ''_'' @ ''3'') = get_midpoint (Fin 1) ''c2064it''"
    by (rule get_midpoint_suffix_insensitive [OF reg])
  moreover have "get_midpoint (Fin 1) ''c2064it'' = Inr (Fin 50000)"
    using get_midpoint_finite [OF reg(1,2), of 1] by (simp add: MAP_10_def)
  ultimately show ?thesis using reg by simp
qed

section \<open>Properties of the debt ratio stage\<close>

subsection \<open>Frames\<close>

lemma rows_assign: "rows (assign c f df) = map (\<lambda>r. r(c := f r)) (rows df)"
  by (simp add: assign_def)

lemma columns_assign: "set (columns (assign c f df)) = insert c (set (columns df))"
  by (auto simp: assign_def)

lemma rows_loc_set:
  "rows (loc_set msk c v df) = map (\<lambda>r. if msk r then r(c := v) else r) (rows df)"
  by (simp add: loc_set_def)

lemma columns_loc_set: "columns (loc_set msk c v df) = columns df"
  by (simp add: loc_set_def)

lemma length_rows_assign_series:
  "length s = length (rows df) \<Longrightarrow> length (rows (assign_series c s df)) = length (rows df)"
  by (simp add: assign_series_def)

lemma nth_rows_assign_series:
  "length s = length (rows df) \<Longrightarrow> i < length (rows df) \<Longrightarrow>
   rows (assign_series c s df) ! i = (rows df ! i)(c := s ! i)"
  by (simp add: assign_series_def)

lemma columns_assign_series:
  "set (columns (assign_series c s df)) = insert c (set (columns df))"
  by (auto simp: assign_series_def)

lemma length_series: "length (series df c) = length (rows df)"
  by (simp add: series_def)

lemma nth_series: "i < length (rows df) \<Longrightarrow> series df c ! i = (rows df ! i) c"
  by (simp add: series_def)

subsection \<open>Raw ratio and winsorisation\<close>

lemma rows_raw_debt_ratio:
  "rows (raw_debt_ratio df cfg) =
     map (\<lambda>r. r(''debt_ratio'' :=
            (if fl_gt (r ''total_debt'') (Fin 0) \<and> fl_eq (r ''total_assets'') (Fin 0) then NaN
             else if fl_eq (r ''total_debt'') (Fin 0) \<and> fl_eq (r ''total_assets'') (Fin 0)
             then Fin 0
             else fl_div (r ''total_debt'') (fl_add (r ''total_assets'') (Fin (epsilon cfg))))))
       (rows df)"
  by (auto simp: raw_debt_ratio_def Let_def rows_loc_set rows_assign fun_upd_def)

lemma length_put: "length (put idxs v a) = length a"
  unfolding put_def by (induction idxs arbitrary: a) auto

lemma floor_limit_less:
  assumes "0 \<le> l" "l < 1" "0 < n"
  shows "nat \<lfloor>l * real n\<rfloor> < n"
proof -
  have "l * real n < real n" using assms by simp
  then have "\<lfloor>l * real n\<rfloor> < int n" by linarith
  then show ?thesis using assms by linarith
qed

lemma winsorize_ok:
  assumes "0 \<le> lo" "lo < 1" "0 \<le> hi" "hi \<le> 1" "a \<noteq> []"
  shows "winsorize a (lo, hi) =
           Inr (put (up_positions a hi)
                  ((if lo \<noteq> 0 then put (low_positions a lo) (a ! (argsort a ! nat \<lfloor>lo * real (length a)\<rfloor>)) a else a)
                     ! (argsort a ! (if length a - nat \<lfloor>real (length a) * hi\<rfloor> = 0 then length a - 1
                                     else length a - nat \<lfloor>real (length a) * hi\<rfloor> - 1)))
                  (if lo \<noteq> 0 then put (low_positions a lo) (a ! (argsort a ! nat \<lfloor>lo * real (length a)\<rfloor>)) a else a))"
proof -
  have "nat \<lfloor>lo * real (length a)\<rfloor> < length a"
    using assms by (intro floor_limit_less) auto
  then show ?thesis using assms by (simp add: winsorize_def Let_def)
qed

lemma winsorize_length:
  assumes "winsorize a limits = Inr w"
  shows "length w = length a"
  using assms by (auto simp: winsorize_def Let_def length_put split: prod.splits if_splits)

lemma length_reindex: "length (reindex n idx vals) = n"
  by (simp add: reindex_def)

lemma zip_upt_nth: "zip [0..<length s] s = map (\<lambda>i. (i, s ! i)) [0..<length s]"
  by (rule nth_equalityI) auto

lemma dropna_alt:
  "dropna s = map (\<lambda>i. (i, s ! i)) (filter (\<lambda>i. \<not> isna (s ! i)) [0..<length s])"
proof -
  have "dropna s = filter (\<lambda>(i, x). \<not> isna x) (map (\<lambda>i. (i, s ! i)) [0..<length s])"
    unfolding dropna_def by (subst zip_upt_nth) (rule refl)
  also have "\<dots> = map (\<lambda>i. (i, s ! i))
                    (filter ((\<lambda>(i, x). \<not> isna x) \<circ> (\<lambda>i. (i, s ! i))) [0..<length s])"
    by (rule filter_map)
  also have "(\<lambda>(i, x). \<not> isna x) \<circ> (\<lambda>i. (i, s ! i)) = (\<lambda>i. \<not> isna (s ! i))"
    by (rule ext) simp
  finally show ?thesis .
qed

lemma fst_dropna: "map fst (dropna s) = filter (\<lambda>i. \<not> isna (s ! i)) [0..<length s]"
  unfolding dropna_alt by (simp add: comp_def)

lemma snd_dropna: "map snd (dropna s) = map (\<lambda>i. s ! i) (map fst (dropna s))"
  unfolding dropna_alt by (simp add: comp_def)

lemma distinct_fst_dropna: "distinct (map fst (dropna s))"
  by (simp add: fst_dropna)

lemma set_fst_dropna: "set (map fst (dropna s)) = {i. i < length s \<and> \<not> isna (s ! i)}"
  by (auto simp: fst_dropna)

lemma replace_inf_defined:
  "i < length s \<Longrightarrow> (\<not> isna (replace_inf s ! i)) = (\<exists>v. s ! i = Fin v)"
  by (cases "s ! i") (auto simp: replace_inf_def isna_def isinf_def)

lemma replace_inf_value:
  "i < length s \<Longrightarrow> \<not> isna (replace_inf s ! i) \<Longrightarrow> replace_inf s ! i = s ! i"
  by (auto simp: replace_inf_def isna_def isinf_def)

lemma length_replace_inf: "length (replace_inf s) = length s"
  by (simp add: replace_inf_def)

lemma reindex_hit:
  assumes "distinct idx" "length vals = length idx" "k < length idx" "idx ! k < n"
  shows "reindex n idx vals ! (idx ! k) = vals ! k"
proof -
  have "map_of (zip idx vals) (idx ! k) = Some (vals ! k)"
    using assms by (intro map_of_zip_nth) auto
  then show ?thesis using assms(4) by (simp add: reindex_def)
qed

lemma reindex_miss:
  assumes "length vals = length idx" "i \<notin> set idx" "i < n"
  shows "reindex n idx vals ! i = NaN"
proof -
  have "map_of (zip idx vals) i = None"
    using assms map_of_zip_is_None [of idx vals i] by simp
  then show ?thesis using assms(3) by (simp add: reindex_def)
qed

lemma assign_const_series:
  "assign c (\<lambda>_. v) df = assign_series c (replicate (length (rows df)) v) df"
proof -
  have "map (\<lambda>r. r(c := v)) (rows df) =
        map (\<lambda>(r, v). r(c := v)) (zip (rows df) (replicate (length (rows df)) v))"
    by (rule nth_equalityI) auto
  then show ?thesis by (simp add: assign_def assign_series_def)
qed

lemma winsorise_stage_result:
  fixes df3 :: frame
  assumes lim: "winsorize_limits cfg = (lo, hi)" "0 \<le> lo" "lo < 1" "0 \<le> hi" "hi \<le> 1"
  defines "clean \<equiv> dropna (replace_inf (series df3 ''debt_ratio''))"
  shows "\<exists>win. winsorise_stage df3 cfg = Inr (assign_series ''debt_ratio_winsorized'' win df3) \<and>
               length win = length (rows df3) \<and>
               (clean = [] \<longrightarrow> win = replicate (length (rows df3)) NaN) \<and>
               (clean \<noteq> [] \<longrightarrow>
                  (\<exists>w. winsorize (map snd clean) (lo, hi) = Inr w \<and>
                       win = reindex (length (rows df3)) (map fst clean) w))"
proof (cases "clean = []")
  case True
  then show ?thesis
    unfolding clean_def by (simp add: winsorise_stage_def Let_def assign_const_series)
next
  case False
  then have ne: "map snd clean \<noteq> []" by simp
  from winsorize_ok [OF lim(2-5) ne] obtain w where w: "winsorize (map snd clean) (lo, hi) = Inr w"
    by blast
  show ?thesis
    using False w lim(1) unfolding clean_def
    by (intro exI [of _ "reindex (length (rows df3)) (map fst clean) w"])
       (simp add: winsorise_stage_def Let_def length_reindex clean_def)
qed

lemma length_rows_raw: "length (rows (raw_debt_ratio df cfg)) = length (rows df)"
  by (simp add: rows_raw_debt_ratio)

lemma rows_log_stage:
  "rows (log_stage df4 cfg) =
     map (\<lambda>r. r(''log_debt_ratio_winsorized'' :=
            (let log_input = fl_add (r ''debt_ratio_winsorized'') (Fin (log_dv_constant cfg))
             in fl_log (if fl_gt log_input (Fin 0) then log_input else NaN)))) (rows df4)"
  by (simp add: log_stage_def rows_assign)

lemma compute_debt_ratio_result:
  fixes df :: frame
  assumes cols: "''total_debt'' \<in> set (columns df)" "''total_assets'' \<in> set (columns df)"
    and lim: "winsorize_limits cfg = (lo, hi)" "0 \<le> lo" "lo < 1" "0 \<le> hi" "hi \<le> 1"
  defines "clean \<equiv> dropna (replace_inf (series (raw_debt_ratio df cfg) ''debt_ratio''))"
  shows "\<exists>win. compute_debt_ratio df cfg =
                 Inr (log_stage (assign_series ''debt_ratio_winsorized'' win
                                   (raw_debt_ratio df cfg)) cfg) \<and>
               length win = length (rows df) \<and>
               (clean = [] \<longrightarrow> win = replicate (length (rows df)) NaN) \<and>
               (clean \<noteq> [] \<longrightarrow>
                  (\<exists>w. winsorize (map snd clean) (lo, hi) = Inr w \<and>
                       win = reindex (length (rows df)) (map fst clean) w))"
proof -
  from winsorise_stage_result [OF lim, of "raw_debt_ratio df cfg"]
  obtain win where w:
    "winsorise_stage (raw_debt_ratio df cfg) cfg =
       Inr (assign_series ''debt_ratio_winsorized'' win (raw_debt_ratio df cfg))"
    "length win = length (rows (raw_debt_ratio df cfg))"
    "clean = [] \<longrightarrow> win = replicate (length (rows (raw_debt_ratio df cfg))) NaN"
    "clean \<noteq> [] \<longrightarrow>
       (\<exists>w. winsorize (map snd clean) (lo, hi) = Inr w \<and>
            win = reindex (length (rows (raw_debt_ratio df cfg))) (map fst clean) w)"
    unfolding clean_def by blast
  have "compute_debt_ratio df cfg =
          Inr (log_stage (assign_series ''debt_ratio_winsorized'' win (raw_debt_ratio df cfg)) cfg)"
    using cols w(1) by (simp add: compute_debt_ratio_def)
  with w(2-4) show ?thesis unfolding length_rows_raw by blast
qed

lemma result_row:
  assumes "length win = length (rows df)" "i < length (rows df)"
  shows "(rows (log_stage (assign_series ''debt_ratio_winsorized'' win
                             (raw_debt_ratio df cfg)) cfg) ! i) ''debt_ratio'' =
           (rows (raw_debt_ratio df cfg) ! i) ''debt_ratio''"
    and "(rows (log_stage (assign_series ''debt_ratio_winsorized'' win
                             (raw_debt_ratio df cfg)) cfg) ! i) ''debt_ratio_winsorized'' = win ! i"
  using assms
  by (simp_all add: rows_log_stage length_rows_assign_series nth_rows_assign_series
        length_rows_raw)

lemma result_length:
  assumes "length win = length (rows df)"
  shows "length (rows (log_stage (assign_series ''debt_ratio_winsorized'' win
                             (raw_debt_ratio df cfg)) cfg)) = length (rows df)"
  using assms by (simp add: rows_log_stage length_rows_assign_series length_rows_raw)

lemma nth_put_other: "k \<notin> set idxs \<Longrightarrow> put idxs v a ! k = a ! k"
  unfolding put_def by (induction idxs arbitrary: a) auto

lemma length_argsort: "length (argsort a) = length a"
  by (simp add: argsort_def)

lemma distinct_argsort: "distinct (argsort a)"
  by (simp add: argsort_def)

lemma floor_fraction:
  assumes "0 \<le> l" "l \<le> 1"
  shows "real (nat \<lfloor>l * real n\<rfloor>) \<le> l * real n"
    and "l * real n < real (nat \<lfloor>l * real n\<rfloor>) + 1"
    and "nat \<lfloor>l * real n\<rfloor> \<le> n"
proof -
  have nn: "0 \<le> l * real n" using assms by simp
  then have z: "0 \<le> \<lfloor>l * real n\<rfloor>" by simp
  then have e: "real (nat \<lfloor>l * real n\<rfloor>) = of_int \<lfloor>l * real n\<rfloor>" by simp
  show "real (nat \<lfloor>l * real n\<rfloor>) \<le> l * real n" unfolding e by linarith
  show "l * real n < real (nat \<lfloor>l * real n\<rfloor>) + 1" unfolding e by linarith
  have "l * real n \<le> real n" using assms by (simp add: mult_left_le_one_le)
  then have "\<lfloor>l * real n\<rfloor> \<le> int n" by linarith
  then show "nat \<lfloor>l * real n\<rfloor> \<le> n" by linarith
qed

lemma low_positions_count:
  assumes "0 \<le> lo" "lo \<le> 1"
  shows "distinct (low_positions a lo)"
    and "length (low_positions a lo) = nat \<lfloor>lo * real (length a)\<rfloor>"
  using floor_fraction(3) [OF assms, of "length a"]
  by (simp_all add: low_positions_def distinct_argsort length_argsort)

lemma up_positions_count:
  assumes "0 \<le> hi" "hi \<le> 1"
  shows "distinct (up_positions a hi)"
    and "length (up_positions a hi) = nat \<lfloor>hi * real (length a)\<rfloor>"
  using floor_fraction(3) [OF assms, of "length a"]
  by (simp_all add: up_positions_def distinct_argsort length_argsort mult.commute)

lemma winsorize_outside_tails:
  assumes "0 \<le> lo" "lo < 1" "0 \<le> hi" "hi \<le> 1" "winsorize a (lo, hi) = Inr w"
    and "k \<notin> set (low_positions a lo) \<union> set (up_positions a hi)"
  shows "w ! k = a ! k"
proof (cases "a = []")
  case True
  then show ?thesis using assms(5) by (simp add: winsorize_def Let_def split: if_splits)
next
  case False
  from winsorize_ok [OF assms(1-4) False] assms(5) assms(6)
  show ?thesis by (auto simp: nth_put_other)
qed

lemma nth_put_mem: "k \<in> set idxs \<Longrightarrow> k < length a \<Longrightarrow> put idxs v a ! k = v"
proof (induction idxs arbitrary: a)
  case Nil
  then show ?case by simp
next
  case (Cons i idxs)
  have step: "put (i # idxs) v a = put idxs v (a[i := v])" by (simp add: put_def)
  show ?case
  proof (cases "k \<in> set idxs")
    case True
    then show ?thesis unfolding step using Cons.IH [of "a[i := v]"] Cons.prems(2) by simp
  next
    case False
    then have "k = i" using Cons.prems(1) by simp
    then show ?thesis unfolding step using False Cons.prems(2) by (simp add: nth_put_other)
  qed
qed

lemma set_argsort: "set (argsort a) = {0..<length a}"
  by (simp add: argsort_def)

lemma argsort_nth_less: "i < length a \<Longrightarrow> argsort a ! i < length a"
proof -
  assume "i < length a"
  then have "argsort a ! i \<in> set (argsort a)" by (simp add: length_argsort)
  then show ?thesis by (simp add: set_argsort)
qed

lemma low_positions_less: "k \<in> set (low_positions a lo) \<Longrightarrow> k < length a"
  using set_argsort [of a] by (auto simp: low_positions_def dest: in_set_takeD)

lemma up_positions_less: "k \<in> set (up_positions a hi) \<Longrightarrow> k < length a"
  using set_argsort [of a] by (auto simp: up_positions_def dest: in_set_dropD)

lemma sorted_argsort: "sorted (map (\<lambda>i. fl_key (a ! i)) (argsort a))"
  by (simp add: argsort_def)

text \<open>The entries at the tail positions after winsorising.\<close>

lemma winsorize_tail_values:
  assumes lim: "0 \<le> lo" "lo < 1" "0 \<le> hi" "hi \<le> 1" and w: "winsorize a (lo, hi) = Inr w"
  defines "n \<equiv> length a"
  defines "lowv \<equiv> a ! (argsort a ! nat \<lfloor>lo * real n\<rfloor>)"
  defines "j \<equiv> argsort a ! (if n - nat \<lfloor>real n * hi\<rfloor> = 0 then n - 1
                               else n - nat \<lfloor>real n * hi\<rfloor> - 1)"
  defines "upv \<equiv> (if j \<in> set (low_positions a lo) then lowv else a ! j)"
  shows "\<forall>k \<in> set (up_positions a hi). w ! k = upv"
    and "\<forall>k \<in> set (low_positions a lo). k \<notin> set (up_positions a hi) \<longrightarrow> w ! k = lowv"
proof -
  have ne: "a \<noteq> []" using w by (auto simp: winsorize_def Let_def split: if_splits)
  then have n0: "0 < n" by (simp add: n_def)
  define a1 where "a1 = (if lo \<noteq> 0 then put (low_positions a lo) lowv a else a)"
  have la1: "length a1 = n" by (simp add: a1_def length_put n_def)
  have weq: "w = put (up_positions a hi) (a1 ! j) a1"
    using winsorize_ok [OF lim ne] w
    unfolding a1_def lowv_def j_def n_def by simp
  have lo0: "lo = 0 \<Longrightarrow> low_positions a lo = []" by (simp add: low_positions_def)
  have a1low: "k \<in> set (low_positions a lo) \<Longrightarrow> a1 ! k = lowv" for k
  proof -
    assume k: "k \<in> set (low_positions a lo)"
    then have "lo \<noteq> 0" using lo0 by auto
    then show "a1 ! k = lowv"
      unfolding a1_def using k low_positions_less [OF k] by (simp add: nth_put_mem)
  qed
  have a1other: "k \<notin> set (low_positions a lo) \<Longrightarrow> a1 ! k = a ! k" for k
    unfolding a1_def by (simp add: nth_put_other)
  have "a1 ! j = upv" unfolding upv_def using a1low a1other by simp
  then have weq': "w = put (up_positions a hi) upv a1" using weq by simp
  show "\<forall>k \<in> set (up_positions a hi). w ! k = upv"
  proof
    fix k assume k: "k \<in> set (up_positions a hi)"
    then have "k < length a1" using up_positions_less [OF k] la1 n_def by simp
    with k show "w ! k = upv" unfolding weq' by (rule nth_put_mem)
  qed
  show "\<forall>k \<in> set (low_positions a lo). k \<notin> set (up_positions a hi) \<longrightarrow> w ! k = lowv"
  proof (intro ballI impI)
    fix k assume k: "k \<in> set (low_positions a lo)" "k \<notin> set (up_positions a hi)"
    have "w ! k = a1 ! k" unfolding weq' using k(2) by (rule nth_put_other)
    also have "\<dots> = lowv" using k(1) by (rule a1low)
    finally show "w ! k = lowv" .
  qed
qed

text \<open>The bounds are order statistics: no tail entry lies inside them.\<close>

lemma low_positions_below:
  assumes "0 \<le> lo" "lo < 1" "a \<noteq> []" "k \<in> set (low_positions a lo)"
  shows "fl_key (a ! k) \<le> fl_key (a ! (argsort a ! nat \<lfloor>lo * real (length a)\<rfloor>))"
proof -
  let ?m = "nat \<lfloor>lo * real (length a)\<rfloor>"
  have m: "?m < length a" using assms(1-3) by (intro floor_limit_less) auto
  from assms(4) obtain i where i: "i < ?m" "argsort a ! i = k"
    using m by (auto simp: low_positions_def in_set_conv_nth length_argsort)
  have "map (\<lambda>i. fl_key (a ! i)) (argsort a) ! i \<le> map (\<lambda>i. fl_key (a ! i)) (argsort a) ! ?m"
    using sorted_argsort [of a] i(1) m by (intro sorted_nth_mono) (auto simp: length_argsort)
  then show ?thesis using i m by (simp add: length_argsort)
qed

lemma up_positions_above:
  assumes "0 \<le> hi" "hi \<le> 1" "a \<noteq> []" "k \<in> set (up_positions a hi)"
    and "0 < length a - nat \<lfloor>real (length a) * hi\<rfloor>"
  shows "fl_key (a ! (argsort a ! (length a - nat \<lfloor>real (length a) * hi\<rfloor> - 1))) \<le> fl_key (a ! k)"
proof -
  let ?u = "length a - nat \<lfloor>real (length a) * hi\<rfloor>"
  from assms(4) obtain i0 where i0: "i0 < length a - ?u" "argsort a ! (?u + i0) = k"
    by (auto simp: up_positions_def in_set_conv_nth length_argsort)
  define i where "i = ?u + i0"
  have i: "?u \<le> i" "i < length a" "argsort a ! i = k"
    using i0 by (auto simp: i_def)
  have "map (\<lambda>i. fl_key (a ! i)) (argsort a) ! (?u - 1) \<le> map (\<lambda>i. fl_key (a ! i)) (argsort a) ! i"
    using sorted_argsort [of a] i(1,2) by (intro sorted_nth_mono) (auto simp: length_argsort)
  then show ?thesis using i assms(5) by (simp add: length_argsort)
qed

text \<open>
  An overwritten position need not change: with tied values the tail entries already equal
  the bound.
\<close>

lemma winsorize_tied_values:
  "winsorize (replicate 5 (Fin 0)) (2 / 5, 2 / 5) = Inr (replicate 5 (Fin 0))"
  by code_simp

lemma result_series:
  assumes "length win = length (rows df)"
  shows "series (log_stage (assign_series ''debt_ratio_winsorized'' win
                              (raw_debt_ratio df cfg)) cfg) ''debt_ratio'' =
           series (raw_debt_ratio df cfg) ''debt_ratio''"
    and "series (log_stage (assign_series ''debt_ratio_winsorized'' win
                              (raw_debt_ratio df cfg)) cfg) ''debt_ratio_winsorized'' = win"
proof -
  let ?df' = "log_stage (assign_series ''debt_ratio_winsorized'' win (raw_debt_ratio df cfg)) cfg"
  have n: "length (rows ?df') = length (rows df)" using assms by (rule result_length)
  show "series ?df' ''debt_ratio'' = series (raw_debt_ratio df cfg) ''debt_ratio''"
  proof (rule nth_equalityI)
    show "length (series ?df' ''debt_ratio'') = length (series (raw_debt_ratio df cfg) ''debt_ratio'')"
      using n by (simp add: length_series length_rows_raw)
  next
    fix i assume "i < length (series ?df' ''debt_ratio'')"
    then have i: "i < length (rows df)" using n by (simp add: length_series)
    show "series ?df' ''debt_ratio'' ! i = series (raw_debt_ratio df cfg) ''debt_ratio'' ! i"
      using i n result_row(1) [OF assms i, of cfg] by (simp add: nth_series length_rows_raw)
  qed
  show "series ?df' ''debt_ratio_winsorized'' = win"
  proof (rule nth_equalityI)
    show "length (series ?df' ''debt_ratio_winsorized'') = length win"
      using n assms by (simp add: length_series)
  next
    fix i assume "i < length (series ?df' ''debt_ratio_winsorized'')"
    then have i: "i < length (rows df)" using n by (simp add: length_series)
    show "series ?df' ''debt_ratio_winsorized'' ! i = win ! i"
      using i n result_row(2) [OF assms i, of cfg] by (simp add: nth_series)
  qed
qed

text \<open>What the write-back by index gives, for any ratio column.\<close>

lemma write_back:
  fixes R :: "fl list"
  defines "clean \<equiv> dropna (replace_inf R)"
  defines "pos \<equiv> map fst clean"
  defines "vals \<equiv> map snd clean"
  assumes lim: "0 \<le> lo" "lo < 1" "0 \<le> hi" "hi \<le> 1"
    and win: "clean = [] \<longrightarrow> win = replicate (length R) NaN"
             "clean \<noteq> [] \<longrightarrow> (\<exists>w. winsorize vals (lo, hi) = Inr w \<and> win = reindex (length R) pos w)"
  shows "\<forall>i < length R. (i \<in> set pos) = (\<exists>v. R ! i = Fin v)"
    and "vals = map (\<lambda>i. R ! i) pos"
    and "\<forall>i < length R. i \<notin> set pos \<longrightarrow> win ! i = NaN"
    and "clean \<noteq> [] \<longrightarrow> winsorize vals (lo, hi) = Inr (map (\<lambda>i. win ! i) pos)"
    and "\<forall>k < length pos. k \<notin> set (low_positions vals lo) \<union> set (up_positions vals hi) \<longrightarrow>
           win ! (pos ! k) = vals ! k"
proof -
  have setpos: "set pos = {i. i < length R \<and> (\<exists>v. R ! i = Fin v)}"
    unfolding pos_def clean_def set_fst_dropna length_replace_inf
    using replace_inf_defined by blast
  show "\<forall>i < length R. (i \<in> set pos) = (\<exists>v. R ! i = Fin v)"
    using setpos by simp
  have "vals = map (\<lambda>i. replace_inf R ! i) pos"
    unfolding vals_def pos_def clean_def by (rule snd_dropna)
  also have "\<dots> = map (\<lambda>i. R ! i) pos"
  proof (rule map_cong [OF refl])
    fix i assume "i \<in> set pos"
    then have "i < length R" "\<exists>v. R ! i = Fin v" using setpos by auto
    then show "replace_inf R ! i = R ! i" by (auto simp: replace_inf_def isinf_def)
  qed
  finally show vals: "vals = map (\<lambda>i. R ! i) pos" .
  have dpos: "distinct pos" unfolding pos_def clean_def by (rule distinct_fst_dropna)
  have lenv: "length vals = length pos" by (simp add: vals_def pos_def)
  have inb: "\<And>k. k < length pos \<Longrightarrow> pos ! k < length R"
    using setpos nth_mem by fastforce
  show "\<forall>i < length R. i \<notin> set pos \<longrightarrow> win ! i = NaN"
  proof (intro allI impI)
    fix i assume i: "i < length R" "i \<notin> set pos"
    show "win ! i = NaN"
    proof (cases "clean = []")
      case True
      then show ?thesis using win(1) i by simp
    next
      case False
      then obtain w where w: "winsorize vals (lo, hi) = Inr w" "win = reindex (length R) pos w"
        using win(2) by blast
      have "length w = length pos" using winsorize_length [OF w(1)] lenv by simp
      then show ?thesis unfolding w(2) using i by (intro reindex_miss) auto
    qed
  qed
  have hit: "win ! (pos ! k) = w ! k"
    if "winsorize vals (lo, hi) = Inr w" "win = reindex (length R) pos w" "k < length pos" for w k
  proof -
    have "length w = length pos" using winsorize_length [OF that(1)] lenv by simp
    then show ?thesis unfolding that(2) using dpos that(3) inb by (intro reindex_hit) auto
  qed
  show "clean \<noteq> [] \<longrightarrow> winsorize vals (lo, hi) = Inr (map (\<lambda>i. win ! i) pos)"
  proof
    assume "clean \<noteq> []"
    then obtain w where w: "winsorize vals (lo, hi) = Inr w" "win = reindex (length R) pos w"
      using win(2) by blast
    have lw: "length w = length pos" using winsorize_length [OF w(1)] lenv by simp
    have "map (\<lambda>i. win ! i) pos = w"
      by (rule nth_equalityI) (use lw hit [OF w] in auto)
    then show "winsorize vals (lo, hi) = Inr (map (\<lambda>i. win ! i) pos)" using w(1) by simp
  qed
  show "\<forall>k < length pos. k \<notin> set (low_positions vals lo) \<union> set (up_positions vals hi) \<longrightarrow>
           win ! (pos ! k) = vals ! k"
  proof (intro allI impI)
    fix k assume k: "k < length pos"
      "k \<notin> set (low_positions vals lo) \<union> set (up_positions vals hi)"
    then have "clean \<noteq> []" by (auto simp: pos_def)
    then obtain w where w: "winsorize vals (lo, hi) = Inr w" "win = reindex (length R) pos w"
      using win(2) by blast
    have "win ! (pos ! k) = w ! k" using hit [OF w k(1)] .
    also have "\<dots> = vals ! k" using winsorize_outside_tails [OF lim w(1) k(2)] .
    finally show "win ! (pos ! k) = vals ! k" .
  qed
qed

lemma write_back_tails:
  fixes R :: "fl list"
  defines "clean \<equiv> dropna (replace_inf R)"
  defines "pos \<equiv> map fst clean"
  defines "vals \<equiv> map snd clean"
  assumes lim: "0 \<le> lo" "lo < 1" "0 \<le> hi" "hi \<le> 1"
    and win: "clean = [] \<longrightarrow> win = replicate (length R) NaN"
             "clean \<noteq> [] \<longrightarrow> (\<exists>w. winsorize vals (lo, hi) = Inr w \<and> win = reindex (length R) pos w)"
  shows "\<forall>k \<in> set (up_positions vals hi).
           win ! (pos ! k) =
             (if argsort vals ! (if length vals - nat \<lfloor>real (length vals) * hi\<rfloor> = 0
                                 then length vals - 1
                                 else length vals - nat \<lfloor>real (length vals) * hi\<rfloor> - 1)
                   \<in> set (low_positions vals lo)
              then vals ! (argsort vals ! nat \<lfloor>lo * real (length vals)\<rfloor>)
              else vals ! (argsort vals !
                     (if length vals - nat \<lfloor>real (length vals) * hi\<rfloor> = 0
                      then length vals - 1
                      else length vals - nat \<lfloor>real (length vals) * hi\<rfloor> - 1)))"
    and "\<forall>k \<in> set (low_positions vals lo). k \<notin> set (up_positions vals hi) \<longrightarrow>
           win ! (pos ! k) = vals ! (argsort vals ! nat \<lfloor>lo * real (length vals)\<rfloor>)"
    and "\<forall>k \<in> set (low_positions vals lo).
           fl_key (vals ! k) \<le> fl_key (vals ! (argsort vals ! nat \<lfloor>lo * real (length vals)\<rfloor>))"
    and "0 < length vals - nat \<lfloor>real (length vals) * hi\<rfloor> \<longrightarrow>
           (\<forall>k \<in> set (up_positions vals hi).
              fl_key (vals ! (argsort vals !
                        (length vals - nat \<lfloor>real (length vals) * hi\<rfloor> - 1)))
                \<le> fl_key (vals ! k))"
proof -
  have lenv: "length vals = length pos" by (simp add: vals_def pos_def)
  have empty: "vals = [] \<Longrightarrow> low_positions vals lo = [] \<and> up_positions vals hi = []"
    by (simp add: low_positions_def up_positions_def argsort_def)
  have ne: "k \<in> set (low_positions vals lo) \<union> set (up_positions vals hi) \<Longrightarrow> clean \<noteq> []"
    for k using empty by (auto simp: vals_def)
  note wb = write_back(4) [OF lim, of R win, folded clean_def pos_def vals_def, OF win]
  have at: "win ! (pos ! k) = w ! k"
    if "winsorize vals (lo, hi) = Inr w" "clean \<noteq> []" "k < length vals" for w k
  proof -
    have "w = map (\<lambda>i. win ! i) pos" using wb that(1,2) by simp
    then show ?thesis using that(3) lenv by simp
  qed
  have lo1: "lo \<le> 1" using lim(2) by simp
  show "\<forall>k \<in> set (up_positions vals hi).
           win ! (pos ! k) =
             (if argsort vals ! (if length vals - nat \<lfloor>real (length vals) * hi\<rfloor> = 0
                                 then length vals - 1
                                 else length vals - nat \<lfloor>real (length vals) * hi\<rfloor> - 1)
                   \<in> set (low_positions vals lo)
              then vals ! (argsort vals ! nat \<lfloor>lo * real (length vals)\<rfloor>)
              else vals ! (argsort vals !
                     (if length vals - nat \<lfloor>real (length vals) * hi\<rfloor> = 0
                      then length vals - 1
                      else length vals - nat \<lfloor>real (length vals) * hi\<rfloor> - 1)))"
  proof
    fix k assume k: "k \<in> set (up_positions vals hi)"
    then have c: "clean \<noteq> []" using ne by blast
    then obtain w where w: "winsorize vals (lo, hi) = Inr w" using win(2) by blast
    have "win ! (pos ! k) = w ! k" using at [OF w c] up_positions_less [OF k] by simp
    then show "win ! (pos ! k) =
             (if argsort vals ! (if length vals - nat \<lfloor>real (length vals) * hi\<rfloor> = 0
                                 then length vals - 1
                                 else length vals - nat \<lfloor>real (length vals) * hi\<rfloor> - 1)
                   \<in> set (low_positions vals lo)
              then vals ! (argsort vals ! nat \<lfloor>lo * real (length vals)\<rfloor>)
              else vals ! (argsort vals !
                     (if length vals - nat \<lfloor>real (length vals) * hi\<rfloor> = 0
                      then length vals - 1
                      else length vals - nat \<lfloor>real (length vals) * hi\<rfloor> - 1)))"
      using winsorize_tail_values(1) [OF lim w] k by simp
  qed
  show "\<forall>k \<in> set (low_positions vals lo). k \<notin> set (up_positions vals hi) \<longrightarrow>
           win ! (pos ! k) = vals ! (argsort vals ! nat \<lfloor>lo * real (length vals)\<rfloor>)"
  proof (intro ballI impI)
    fix k assume k: "k \<in> set (low_positions vals lo)" "k \<notin> set (up_positions vals hi)"
    then have c: "clean \<noteq> []" using ne by blast
    then obtain w where w: "winsorize vals (lo, hi) = Inr w" using win(2) by blast
    have "win ! (pos ! k) = w ! k" using at [OF w c] low_positions_less [OF k(1)] by simp
    then show "win ! (pos ! k) = vals ! (argsort vals ! nat \<lfloor>lo * real (length vals)\<rfloor>)"
      using winsorize_tail_values(2) [OF lim w] k by simp
  qed
  show "\<forall>k \<in> set (low_positions vals lo).
           fl_key (vals ! k) \<le> fl_key (vals ! (argsort vals ! nat \<lfloor>lo * real (length vals)\<rfloor>))"
  proof
    fix k assume k: "k \<in> set (low_positions vals lo)"
    then have "vals \<noteq> []" using empty by auto
    from low_positions_below [OF lim(1,2) this k]
    show "fl_key (vals ! k) \<le> fl_key (vals ! (argsort vals ! nat \<lfloor>lo * real (length vals)\<rfloor>))" .
  qed
  show "0 < length vals - nat \<lfloor>real (length vals) * hi\<rfloor> \<longrightarrow>
           (\<forall>k \<in> set (up_positions vals hi).
              fl_key (vals ! (argsort vals !
                        (length vals - nat \<lfloor>real (length vals) * hi\<rfloor> - 1)))
                \<le> fl_key (vals ! k))"
  proof (intro impI ballI)
    fix k assume p: "0 < length vals - nat \<lfloor>real (length vals) * hi\<rfloor>"
      and k: "k \<in> set (up_positions vals hi)"
    then have "vals \<noteq> []" using empty by auto
    from up_positions_above [OF lim(3,4) this k p]
    show "fl_key (vals ! (argsort vals !
                        (length vals - nat \<lfloor>real (length vals) * hi\<rfloor> - 1)))
                \<le> fl_key (vals ! k)" .
  qed
qed

text \<open>
  Claim C1.  With the two totals present and winsorisation limits the routine accepts,
  \<open>compute_debt_ratio\<close> returns a table of the same length in which, for every row:
  both totals equal to zero give \<open>debt_ratio = 0\<close>; a positive debt over zero assets
  gives \<open>NaN\<close> (so not positive infinity); every other row has
  \<open>total_debt / (total_assets + epsilon)\<close>.
\<close>

theorem debt_ratio_overrides:
  assumes cols: "''total_debt'' \<in> set (columns df)" "''total_assets'' \<in> set (columns df)"
    and lim: "winsorize_limits cfg = (lo, hi)" "0 \<le> lo" "lo < 1" "0 \<le> hi" "hi \<le> 1"
  shows "\<exists>df'. compute_debt_ratio df cfg = Inr df' \<and> length (rows df') = length (rows df) \<and>
           (\<forall>i < length (rows df).
              let d = (rows df ! i) ''total_debt''; a = (rows df ! i) ''total_assets'';
                  q = (rows df' ! i) ''debt_ratio''
              in (fl_eq d (Fin 0) \<and> fl_eq a (Fin 0) \<longrightarrow> q = Fin 0) \<and>
                 (fl_gt d (Fin 0) \<and> fl_eq a (Fin 0) \<longrightarrow> q = NaN \<and> q \<noteq> PInf) \<and>
                 (\<not> (fl_eq a (Fin 0) \<and> (fl_eq d (Fin 0) \<or> fl_gt d (Fin 0))) \<longrightarrow>
                    q = fl_div d (fl_add a (Fin (epsilon cfg)))))"
proof -
  from compute_debt_ratio_result [OF cols lim] obtain win where
    r: "compute_debt_ratio df cfg =
          Inr (log_stage (assign_series ''debt_ratio_winsorized'' win (raw_debt_ratio df cfg)) cfg)"
    and len: "length win = length (rows df)"
    by blast
  let ?df' = "log_stage (assign_series ''debt_ratio_winsorized'' win (raw_debt_ratio df cfg)) cfg"
  have rows: "\<forall>i < length (rows df).
      let d = (rows df ! i) ''total_debt''; a = (rows df ! i) ''total_assets'';
          q = (rows ?df' ! i) ''debt_ratio''
      in (fl_eq d (Fin 0) \<and> fl_eq a (Fin 0) \<longrightarrow> q = Fin 0) \<and>
         (fl_gt d (Fin 0) \<and> fl_eq a (Fin 0) \<longrightarrow> q = NaN \<and> q \<noteq> PInf) \<and>
         (\<not> (fl_eq a (Fin 0) \<and> (fl_eq d (Fin 0) \<or> fl_gt d (Fin 0))) \<longrightarrow>
            q = fl_div d (fl_add a (Fin (epsilon cfg))))"
  proof (intro allI impI)
    fix i assume i: "i < length (rows df)"
    have pos0: "\<not> (fl_gt x (Fin 0) \<and> fl_eq x (Fin 0))" for x
      by (cases x) (auto simp: fl_gt_def fl_eq_def)
    show "let d = (rows df ! i) ''total_debt''; a = (rows df ! i) ''total_assets'';
              q = (rows ?df' ! i) ''debt_ratio''
          in (fl_eq d (Fin 0) \<and> fl_eq a (Fin 0) \<longrightarrow> q = Fin 0) \<and>
             (fl_gt d (Fin 0) \<and> fl_eq a (Fin 0) \<longrightarrow> q = NaN \<and> q \<noteq> PInf) \<and>
             (\<not> (fl_eq a (Fin 0) \<and> (fl_eq d (Fin 0) \<or> fl_gt d (Fin 0))) \<longrightarrow>
                q = fl_div d (fl_add a (Fin (epsilon cfg))))"
      unfolding result_row(1) [OF len i]
      using i pos0 [of "(rows df ! i) ''total_debt''"]
      by (auto simp: rows_raw_debt_ratio Let_def)
  qed
  have n: "length (rows ?df') = length (rows df)" using len by (rule result_length)
  show ?thesis by (intro exI [of _ "?df'"] conjI) (fact r, fact n, fact rows)
qed

lemma series_log_stage:
  "c \<noteq> ''log_debt_ratio_winsorized'' \<Longrightarrow> series (log_stage d cfg) c = series d c"
  by (simp add: series_def rows_log_stage)

lemma example_stage:
  "case winsorise_stage (raw_debt_ratio example_totals example_settings) example_settings of
     Inl e \<Rightarrow> False
   | Inr d \<Rightarrow>
       series d ''debt_ratio'' = [Fin 0, NaN, Fin (1 / 2), Fin 5, Fin (1 / 10)] \<and>
       series d ''debt_ratio_winsorized'' =
         [Fin (1 / 10), NaN, Fin (1 / 2), Fin (1 / 2), Fin (1 / 10)]"
  by code_simp

lemma example_hyps:
  "''total_debt'' \<in> set (columns example_totals)"
  "''total_assets'' \<in> set (columns example_totals)"
  "winsorize_limits example_settings = (1 / 4, 1 / 4)"
  by (simp_all add: example_totals_def example_settings_def)

lemma example_compute:
  assumes "compute_debt_ratio example_totals example_settings = Inr df'"
  shows "series df' ''debt_ratio'' = [Fin 0, NaN, Fin (1 / 2), Fin 5, Fin (1 / 10)]"
    and "series df' ''debt_ratio_winsorized'' =
           [Fin (1 / 10), NaN, Fin (1 / 2), Fin (1 / 2), Fin (1 / 10)]"
proof -
  obtain d where d:
    "winsorise_stage (raw_debt_ratio example_totals example_settings) example_settings = Inr d"
    "series d ''debt_ratio'' = [Fin 0, NaN, Fin (1 / 2), Fin 5, Fin (1 / 10)]"
    "series d ''debt_ratio_winsorized'' =
       [Fin (1 / 10), NaN, Fin (1 / 2), Fin (1 / 2), Fin (1 / 10)]"
    using example_stage by (auto split: sum.splits)
  have "df' = log_stage d example_settings"
    using assms d(1) example_hyps(1,2) by (simp add: compute_debt_ratio_def)
  then show "series df' ''debt_ratio'' = [Fin 0, NaN, Fin (1 / 2), Fin 5, Fin (1 / 10)]"
    and "series df' ''debt_ratio_winsorized'' =
           [Fin (1 / 10), NaN, Fin (1 / 2), Fin (1 / 2), Fin (1 / 10)]"
    using d(2,3) by (simp_all add: series_log_stage)
qed

theorem debt_ratio_overrides_witness:
  "''total_debt'' \<in> set (columns example_totals) \<and>
   ''total_assets'' \<in> set (columns example_totals) \<and>
   winsorize_limits example_settings = (1 / 4, 1 / 4) \<and>
   (\<exists>df'. compute_debt_ratio example_totals example_settings = Inr df' \<and>
          length (rows df') = 5 \<and>
          (rows df' ! 0) ''debt_ratio'' = Fin 0 \<and>
          (rows df' ! 1) ''debt_ratio'' = NaN \<and>
          (rows df' ! 2) ''debt_ratio'' = Fin (1 / 2))"
proof -
  from debt_ratio_overrides [OF example_hyps, of] obtain df' where
    r: "compute_debt_ratio example_totals example_settings = Inr df'"
    and n: "length (rows df') = length (rows example_totals)"
    and a: "\<forall>i < length (rows example_totals).
              let d = (rows example_totals ! i) ''total_debt'';
                  a = (rows example_totals ! i) ''total_assets'';
                  q = (rows df' ! i) ''debt_ratio''
              in (fl_eq d (Fin 0) \<and> fl_eq a (Fin 0) \<longrightarrow> q = Fin 0) \<and>
                 (fl_gt d (Fin 0) \<and> fl_eq a (Fin 0) \<longrightarrow> q = NaN \<and> q \<noteq> PInf) \<and>
                 (\<not> (fl_eq a (Fin 0) \<and> (fl_eq d (Fin 0) \<or> fl_gt d (Fin 0))) \<longrightarrow>
                    q = fl_div d (fl_add a (Fin (epsilon example_settings))))"
    by auto
  have r0: "(rows df' ! 0) ''debt_ratio'' = Fin 0"
    using a [rule_format, of 0]
    by (simp add: example_totals_def mkrow_def fl_eq_def fl_gt_def Let_def)
  have r1: "(rows df' ! 1) ''debt_ratio'' = NaN"
    using a [rule_format, of 1]
    by (simp add: example_totals_def mkrow_def fl_eq_def fl_gt_def Let_def)
  have r2: "(rows df' ! 2) ''debt_ratio'' = Fin (1 / 2)"
    using a [rule_format, of 2]
    by (simp add: example_totals_def example_settings_def mkrow_def fl_eq_def fl_gt_def Let_def)
  have n5: "length (rows df') = 5" using n by (simp add: example_totals_def)
  show ?thesis using example_hyps r n5 r0 r1 r2 by blast
qed

text \<open>
  Claim C7, as amended.  In the table \<open>compute_debt_ratio\<close> returns, let \<open>pos\<close> be the
  positions left by replacing the infinities of \<open>debt_ratio\<close> with \<open>NaN\<close> and dropping
  \<open>NaN\<close>, and \<open>vals\<close> the ratios there.  Then \<open>pos\<close> is exactly the rows with a finite
  ratio; \<open>debt_ratio_winsorized\<close> read at \<open>pos\<close> is \<open>winsorize vals\<close>, so the bounds come
  from the defined values only and every result is at the row of its input; every other
  row is \<open>NaN\<close>.  No value outside the tail positions is altered.  Every high-tail
  position holds the upper bound, the entry next below the high tail in sorted order (the
  lower bound when that entry is itself in the low tail); every low-tail position outside
  the high tail holds the lower bound, the entry next above the low tail in sorted order;
  no low-tail value exceeds the lower bound and no high-tail value is below the upper
  one.  The low-tail positions are \<open>int(lo * n)\<close> distinct positions of \<open>vals\<close>, a number
  within one of \<open>lo * n\<close>, likewise at the high tail.
\<close>

theorem winsorised_ratio_aligned:
  assumes cols: "''total_debt'' \<in> set (columns df)" "''total_assets'' \<in> set (columns df)"
    and lim: "winsorize_limits cfg = (lo, hi)" "0 \<le> lo" "lo < 1" "0 \<le> hi" "hi \<le> 1"
  shows "\<exists>df'. compute_debt_ratio df cfg = Inr df' \<and>
           (let ratio = series df' ''debt_ratio'';
                win = series df' ''debt_ratio_winsorized'';
                clean = dropna (replace_inf ratio);
                pos = map fst clean;
                vals = map snd clean
            in length ratio = length (rows df) \<and> length win = length (rows df) \<and>
               (\<forall>i < length ratio. (i \<in> set pos) = (\<exists>v. ratio ! i = Fin v)) \<and>
               vals = map (\<lambda>i. ratio ! i) pos \<and>
               (\<forall>i < length ratio. i \<notin> set pos \<longrightarrow> win ! i = NaN) \<and>
               (clean \<noteq> [] \<longrightarrow> winsorize vals (lo, hi) = Inr (map (\<lambda>i. win ! i) pos)) \<and>
               (\<forall>k < length pos.
                  k \<notin> set (low_positions vals lo) \<union> set (up_positions vals hi) \<longrightarrow>
                  win ! (pos ! k) = vals ! k) \<and>
               (\<forall>k \<in> set (up_positions vals hi).
                  win ! (pos ! k) =
                    (if argsort vals !
                          (if length vals - nat \<lfloor>real (length vals) * hi\<rfloor> = 0
                           then length vals - 1
                           else length vals - nat \<lfloor>real (length vals) * hi\<rfloor> - 1)
                          \<in> set (low_positions vals lo)
                     then vals ! (argsort vals ! nat \<lfloor>lo * real (length vals)\<rfloor>)
                     else vals ! (argsort vals !
                            (if length vals - nat \<lfloor>real (length vals) * hi\<rfloor> = 0
                             then length vals - 1
                             else length vals - nat \<lfloor>real (length vals) * hi\<rfloor> - 1)))) \<and>
               (\<forall>k \<in> set (low_positions vals lo). k \<notin> set (up_positions vals hi) \<longrightarrow>
                  win ! (pos ! k) = vals ! (argsort vals ! nat \<lfloor>lo * real (length vals)\<rfloor>)) \<and>
               (\<forall>k \<in> set (low_positions vals lo).
                  fl_key (vals ! k)
                    \<le> fl_key (vals ! (argsort vals ! nat \<lfloor>lo * real (length vals)\<rfloor>))) \<and>
               (0 < length vals - nat \<lfloor>real (length vals) * hi\<rfloor> \<longrightarrow>
                  (\<forall>k \<in> set (up_positions vals hi).
                     fl_key (vals ! (argsort vals !
                               (length vals - nat \<lfloor>real (length vals) * hi\<rfloor> - 1)))
                       \<le> fl_key (vals ! k))) \<and>
               distinct (low_positions vals lo) \<and> distinct (up_positions vals hi) \<and>
               real (length (low_positions vals lo)) \<le> lo * real (length vals) \<and>
               lo * real (length vals) < real (length (low_positions vals lo)) + 1 \<and>
               real (length (up_positions vals hi)) \<le> hi * real (length vals) \<and>
               hi * real (length vals) < real (length (up_positions vals hi)) + 1)"
proof -
  define R where "R = series (raw_debt_ratio df cfg) ''debt_ratio''"
  have lenR: "length R = length (rows df)" by (simp add: R_def length_series length_rows_raw)
  from compute_debt_ratio_result [OF cols lim] obtain win where
    r: "compute_debt_ratio df cfg =
          Inr (log_stage (assign_series ''debt_ratio_winsorized'' win (raw_debt_ratio df cfg)) cfg)"
    and len: "length win = length (rows df)"
    and w1: "dropna (replace_inf R) = [] \<longrightarrow> win = replicate (length R) NaN"
    and w2: "dropna (replace_inf R) \<noteq> [] \<longrightarrow>
               (\<exists>w. winsorize (map snd (dropna (replace_inf R))) (lo, hi) = Inr w \<and>
                    win = reindex (length R) (map fst (dropna (replace_inf R))) w)"
    unfolding R_def [symmetric] lenR by blast
  let ?df' = "log_stage (assign_series ''debt_ratio_winsorized'' win (raw_debt_ratio df cfg)) cfg"
  have s1: "series ?df' ''debt_ratio'' = R" unfolding R_def using len by (rule result_series(1))
  have s2: "series ?df' ''debt_ratio_winsorized'' = win" using len by (rule result_series(2))
  have lo1: "lo \<le> 1" using lim(3) by simp
  note wb = write_back [OF lim(2-5) w1 w2]
  note wt = write_back_tails [OF lim(2-5) w1 w2]
  note lp = low_positions_count [OF lim(2) lo1, of "map snd (dropna (replace_inf R))"]
  note up = up_positions_count [OF lim(4,5), of "map snd (dropna (replace_inf R))"]
  note fl = floor_fraction(1,2) [OF lim(2) lo1, of "length (map snd (dropna (replace_inf R)))"]
  note fh = floor_fraction(1,2) [OF lim(4,5), of "length (map snd (dropna (replace_inf R)))"]
  have body: "let ratio = series ?df' ''debt_ratio'';
                win = series ?df' ''debt_ratio_winsorized'';
                clean = dropna (replace_inf ratio);
                pos = map fst clean;
                vals = map snd clean
            in length ratio = length (rows df) \<and> length win = length (rows df) \<and>
               (\<forall>i < length ratio. (i \<in> set pos) = (\<exists>v. ratio ! i = Fin v)) \<and>
               vals = map (\<lambda>i. ratio ! i) pos \<and>
               (\<forall>i < length ratio. i \<notin> set pos \<longrightarrow> win ! i = NaN) \<and>
               (clean \<noteq> [] \<longrightarrow> winsorize vals (lo, hi) = Inr (map (\<lambda>i. win ! i) pos)) \<and>
               (\<forall>k < length pos.
                  k \<notin> set (low_positions vals lo) \<union> set (up_positions vals hi) \<longrightarrow>
                  win ! (pos ! k) = vals ! k) \<and>
               (\<forall>k \<in> set (up_positions vals hi).
                  win ! (pos ! k) =
                    (if argsort vals !
                          (if length vals - nat \<lfloor>real (length vals) * hi\<rfloor> = 0
                           then length vals - 1
                           else length vals - nat \<lfloor>real (length vals) * hi\<rfloor> - 1)
                          \<in> set (low_positions vals lo)
                     then vals ! (argsort vals ! nat \<lfloor>lo * real (length vals)\<rfloor>)
                     else vals ! (argsort vals !
                            (if length vals - nat \<lfloor>real (length vals) * hi\<rfloor> = 0
                             then length vals - 1
                             else length vals - nat \<lfloor>real (length vals) * hi\<rfloor> - 1)))) \<and>
               (\<forall>k \<in> set (low_positions vals lo). k \<notin> set (up_positions vals hi) \<longrightarrow>
                  win ! (pos ! k) = vals ! (argsort vals ! nat \<lfloor>lo * real (length vals)\<rfloor>)) \<and>
               (\<forall>k \<in> set (low_positions vals lo).
                  fl_key (vals ! k)
                    \<le> fl_key (vals ! (argsort vals ! nat \<lfloor>lo * real (length vals)\<rfloor>))) \<and>
               (0 < length vals - nat \<lfloor>real (length vals) * hi\<rfloor> \<longrightarrow>
                  (\<forall>k \<in> set (up_positions vals hi).
                     fl_key (vals ! (argsort vals !
                               (length vals - nat \<lfloor>real (length vals) * hi\<rfloor> - 1)))
                       \<le> fl_key (vals ! k))) \<and>
               distinct (low_positions vals lo) \<and> distinct (up_positions vals hi) \<and>
               real (length (low_positions vals lo)) \<le> lo * real (length vals) \<and>
               lo * real (length vals) < real (length (low_positions vals lo)) + 1 \<and>
               real (length (up_positions vals hi)) \<le> hi * real (length vals) \<and>
               hi * real (length vals) < real (length (up_positions vals hi)) + 1"
    unfolding s1 s2 Let_def lp(2) up(2)
    by (intro conjI) (fact lenR, fact len, fact wb(1), fact wb(2), fact wb(3), fact wb(4),
        fact wb(5), fact wt(1), fact wt(2), fact wt(3), fact wt(4), fact lp(1), fact up(1), fact fl(1), fact fl(2), fact fh(1), fact fh(2))
  show ?thesis by (intro exI [of _ "?df'"] conjI) (fact r, fact body)
qed

theorem winsorised_ratio_aligned_witness:
  "''total_debt'' \<in> set (columns example_totals) \<and>
   ''total_assets'' \<in> set (columns example_totals) \<and>
   winsorize_limits example_settings = (1 / 4, 1 / 4) \<and>
   (\<exists>df'. compute_debt_ratio example_totals example_settings = Inr df' \<and>
          series df' ''debt_ratio'' = [Fin 0, NaN, Fin (1 / 2), Fin 5, Fin (1 / 10)] \<and>
          series df' ''debt_ratio_winsorized'' =
            [Fin (1 / 10), NaN, Fin (1 / 2), Fin (1 / 2), Fin (1 / 10)] \<and>
          length (series df' ''debt_ratio_winsorized'') = length (rows example_totals))"
proof -
  from winsorised_ratio_aligned [OF example_hyps] obtain df' where
    r: "compute_debt_ratio example_totals example_settings = Inr df'"
    and n: "length (series df' ''debt_ratio_winsorized'') = length (rows example_totals)"
    unfolding Let_def by auto
  show ?thesis using example_hyps r n example_compute [OF r] by blast
qed

lemma example_debt_free_stage:
  "case winsorise_stage (raw_debt_ratio example_debt_free example_wide_limits)
          example_wide_limits of
     Inl e \<Rightarrow> False
   | Inr d \<Rightarrow> series d ''debt_ratio'' = [Fin 0, Fin 0, Fin 0, Fin 0, Fin 0] \<and>
             series d ''debt_ratio_winsorized'' = [Fin 0, Fin 0, Fin 0, Fin 0, Fin 0]"
  by code_simp

text \<open>
  Claim C7 as stated fails in its last part: with five defined ratios that are all equal
  and a tail fraction of two fifths, two values per tail would be altered, and none is.
\<close>

theorem winsorised_ties_counterexample:
  "winsorize_limits example_wide_limits = (2 / 5, 2 / 5) \<and>
   \<not> isl (compute_debt_ratio example_debt_free example_wide_limits) \<and>
   series (projr (compute_debt_ratio example_debt_free example_wide_limits)) ''debt_ratio'' =
     [Fin 0, Fin 0, Fin 0, Fin 0, Fin 0] \<and>
   series (projr (compute_debt_ratio example_debt_free example_wide_limits))
     ''debt_ratio_winsorized'' = [Fin 0, Fin 0, Fin 0, Fin 0, Fin 0]"
proof -
  obtain d where d:
    "winsorise_stage (raw_debt_ratio example_debt_free example_wide_limits)
       example_wide_limits = Inr d"
    "series d ''debt_ratio'' = [Fin 0, Fin 0, Fin 0, Fin 0, Fin 0]"
    "series d ''debt_ratio_winsorized'' = [Fin 0, Fin 0, Fin 0, Fin 0, Fin 0]"
    using example_debt_free_stage by (auto split: sum.splits)
  have c: "compute_debt_ratio example_debt_free example_wide_limits =
             Inr (log_stage d example_wide_limits)"
    using d(1) by (simp add: compute_debt_ratio_def example_debt_free_def)
  have l: "winsorize_limits example_wide_limits = (2 / 5, 2 / 5)"
    by (simp add: example_wide_limits_def)
  show ?thesis unfolding c using l d(2,3) by (simp add: series_log_stage)
qed

section \<open>Properties of coalescing and totals\<close>

lemma traverse_total:
  assumes "\<forall>x \<in> set xs. \<exists>y. f x = Inr y"
  shows "\<exists>ys. traverse f xs = Inr ys \<and> length ys = length xs \<and>
              (\<forall>i < length xs. f (xs ! i) = Inr (ys ! i))"
  using assms
proof (induction xs)
  case Nil
  then show ?case by simp
next
  case (Cons x xs)
  then obtain y where y: "f x = Inr y" by auto
  from Cons obtain ys where ys: "traverse f xs = Inr ys" "length ys = length xs"
    "\<forall>i < length xs. f (xs ! i) = Inr (ys ! i)" by auto
  have "\<forall>i < length (x # xs). f ((x # xs) ! i) = Inr ((y # ys) ! i)"
    using y ys(3) by (auto simp: nth_Cons split: nat.splits)
  then show ?case using y ys(1,2) by (intro exI [of _ "y # ys"]) simp
qed

lemma get_midpoint_total: "\<not> isinf x \<Longrightarrow> \<exists>y. get_midpoint x v = Inr y"
  by (cases x) (auto simp: get_midpoint_def isna_def isinf_def split: option.splits)

lemma nth_combine_first:
  "length a = length b \<Longrightarrow> i < length a \<Longrightarrow>
   combine_first a b ! i = (if isna (a ! i) then b ! i else a ! i)"
  by (simp add: combine_first_def)

lemma coalesce_var_returns:
  assumes fin: "\<And>iv. interval spec = Some iv \<Longrightarrow> \<forall>r \<in> set (rows df). \<not> isinf (r iv)"
  shows "\<exists>col. coalesce_var df spec = Inr col \<and> length col = length (rows df)"
proof (cases "\<exists>iv. interval spec = Some iv \<and> iv \<noteq> [] \<and> iv \<in> set (columns df)")
  case False
  then show ?thesis
    by (auto simp: coalesce_var_def Let_def length_series split: option.splits)
next
  case True
  then obtain iv where iv: "interval spec = Some iv" "iv \<noteq> []" "iv \<in> set (columns df)"
    by blast
  have "\<forall>x \<in> set (series df iv). \<exists>y. get_midpoint x iv = Inr y"
    using fin [OF iv(1)] by (auto simp: series_def intro: get_midpoint_total)
  from traverse_total [OF this] obtain ms where ms:
    "get_midpoint_series (series df iv) iv = Inr ms" "length ms = length (rows df)"
    unfolding get_midpoint_series_def length_series by blast
  then show ?thesis
    using iv by (simp add: coalesce_var_def Let_def combine_first_def length_series)
qed

text \<open>
  Claim C3.  For any \<open>VarSpec\<close> (so for every registered one) and any table whose interval
  column holds no infinite code, \<open>_coalesce_var\<close> returns a column \<open>col\<close> of the table's
  length in which, for every row: a defined exact value is the result, whatever the
  interval cell holds; an undefined exact value gives the midpoint \<open>get_midpoint\<close> resolves
  from the interval code, which is \<open>NaN\<close> when that is unresolved (and when the spec has no
  interval column in the table).
\<close>

theorem coalesce_precedence:
  assumes fin: "\<And>iv. interval spec = Some iv \<Longrightarrow> \<forall>r \<in> set (rows df). \<not> isinf (r iv)"
  shows "\<exists>col. coalesce_var df spec = Inr col \<and> length col = length (rows df) \<and>
           (\<forall>i < length (rows df).
              let r = rows df ! i;
                  e = (if exact spec \<in> set (columns df) then r (exact spec) else NaN);
                  m = (case interval spec of
                         None \<Rightarrow> Inr NaN
                       | Some iv \<Rightarrow> if iv \<noteq> [] \<and> iv \<in> set (columns df)
                                   then get_midpoint (r iv) iv else Inr NaN)
              in (\<not> isna e \<longrightarrow> col ! i = e) \<and> (isna e \<longrightarrow> m = Inr (col ! i)))"
proof -
  define ex where
    "ex = (if exact spec \<in> set (columns df) then series df (exact spec)
           else map (\<lambda>_. NaN) (rows df))"
  have lex: "length ex = length (rows df)" by (simp add: ex_def length_series)
  have nex: "\<And>i. i < length (rows df) \<Longrightarrow>
      ex ! i = (if exact spec \<in> set (columns df) then (rows df ! i) (exact spec) else NaN)"
    by (simp add: ex_def nth_series)
  show ?thesis
  proof (cases "\<exists>iv. interval spec = Some iv \<and> iv \<noteq> [] \<and> iv \<in> set (columns df)")
    case False
    then have c: "coalesce_var df spec = Inr ex"
      by (auto simp: coalesce_var_def ex_def Let_def split: option.splits)
    have "\<forall>i < length (rows df).
              let r = rows df ! i;
                  e = (if exact spec \<in> set (columns df) then r (exact spec) else NaN);
                  m = (case interval spec of
                         None \<Rightarrow> Inr NaN
                       | Some iv \<Rightarrow> if iv \<noteq> [] \<and> iv \<in> set (columns df)
                                   then get_midpoint (r iv) iv else Inr NaN)
              in (\<not> isna e \<longrightarrow> ex ! i = e) \<and> (isna e \<longrightarrow> m = Inr (ex ! i))"
      using False nex by (auto simp: Let_def isna_def split: option.splits)
    with c lex show ?thesis by blast
  next
    case True
    then obtain iv where iv: "interval spec = Some iv" "iv \<noteq> []" "iv \<in> set (columns df)"
      by blast
    have "\<forall>x \<in> set (series df iv). \<exists>y. get_midpoint x iv = Inr y"
      using fin [OF iv(1)] by (auto simp: series_def intro: get_midpoint_total)
    from traverse_total [OF this] obtain ms where ms:
      "get_midpoint_series (series df iv) iv = Inr ms" "length ms = length (rows df)"
      "\<forall>i < length (rows df). get_midpoint (series df iv ! i) iv = Inr (ms ! i)"
      unfolding get_midpoint_series_def length_series by blast
    have c: "coalesce_var df spec = Inr (combine_first ex ms)"
      using iv ms(1) by (simp add: coalesce_var_def ex_def Let_def)
    have l: "length (combine_first ex ms) = length (rows df)"
      using lex ms(2) by (simp add: combine_first_def)
    have "\<forall>i < length (rows df).
              let r = rows df ! i;
                  e = (if exact spec \<in> set (columns df) then r (exact spec) else NaN);
                  m = (case interval spec of
                         None \<Rightarrow> Inr NaN
                       | Some iv \<Rightarrow> if iv \<noteq> [] \<and> iv \<in> set (columns df)
                                   then get_midpoint (r iv) iv else Inr NaN)
              in (\<not> isna e \<longrightarrow> combine_first ex ms ! i = e) \<and>
                 (isna e \<longrightarrow> m = Inr (combine_first ex ms ! i))"
    proof (intro allI impI)
      fix i assume i: "i < length (rows df)"
      have cf: "combine_first ex ms ! i = (if isna (ex ! i) then ms ! i else ex ! i)"
        using lex ms(2) i by (simp add: nth_combine_first)
      have g: "get_midpoint ((rows df ! i) iv) iv = Inr (ms ! i)"
        using ms(3) i by (simp add: nth_series)
      show "let r = rows df ! i;
                  e = (if exact spec \<in> set (columns df) then r (exact spec) else NaN);
                  m = (case interval spec of
                         None \<Rightarrow> Inr NaN
                       | Some iv \<Rightarrow> if iv \<noteq> [] \<and> iv \<in> set (columns df)
                                   then get_midpoint (r iv) iv else Inr NaN)
              in (\<not> isna e \<longrightarrow> combine_first ex ms ! i = e) \<and>
                 (isna e \<longrightarrow> m = Inr (combine_first ex ms ! i))"
        unfolding cf using iv g nex [OF i] by (simp add: Let_def)
    qed
    with c l show ?thesis by blast
  qed
qed

lemma example_coalesce:
  "coalesce_var example_car_debt \<lparr>exact = ''c7060'', interval = Some ''c7060it''\<rparr> =
     Inr [Fin 1000, Fin 35000, NaN, NaN, Fin 500]"
  by code_simp

theorem coalesce_precedence_witness:
  "list_all (\<lambda>r. \<not> isinf (r ''c7060it'')) (rows example_car_debt) \<and>
   (\<exists>col. coalesce_var example_car_debt \<lparr>exact = ''c7060'', interval = Some ''c7060it''\<rparr> =
            Inr col \<and>
          length col = 5 \<and> col ! 0 = Fin 1000 \<and> col ! 1 = Fin 35000 \<and> col ! 2 = NaN)"
proof -
  let ?spec = "\<lparr>exact = ''c7060'', interval = Some ''c7060it''\<rparr>"
  have h: "list_all (\<lambda>r. \<not> isinf (r ''c7060it'')) (rows example_car_debt)"
    by (simp add: example_car_debt_def mkrow_def isinf_def)
  then have h': "\<And>iv. interval ?spec = Some iv \<Longrightarrow>
                   \<forall>r \<in> set (rows example_car_debt). \<not> isinf (r iv)"
    by (simp add: list_all_iff)
  from coalesce_precedence [of ?spec example_car_debt, OF h'] obtain col where
    c: "coalesce_var example_car_debt ?spec = Inr col"
    and n: "length col = length (rows example_car_debt)"
    by blast
  from c have "col = [Fin 1000, Fin 35000, NaN, NaN, Fin 500]"
    unfolding example_coalesce by simp
  then show ?thesis using h c by simp
qed

lemma foldl_fl_add_finite:
  "\<forall>x \<in> set xs. \<exists>v. x = Fin v \<Longrightarrow> foldl fl_add (Fin a) xs = Fin (a + (\<Sum>x\<leftarrow>xs. value0 x))"
proof (induction xs arbitrary: a)
  case Nil
  then show ?case by simp
next
  case (Cons x xs)
  then obtain v where "x = Fin v" by auto
  with Cons show ?case by (simp add: add.assoc)
qed

lemma row_total_finite:
  assumes "\<forall>c \<in> set cols. \<not> isinf (r c)"
  shows "row_total cols r = Fin (\<Sum>c\<leftarrow>cols. value0 (r c))"
proof -
  have f: "\<forall>x \<in> set (map (\<lambda>c. fillna (Fin 0) (r c)) cols). \<exists>v. x = Fin v"
  proof
    fix x assume "x \<in> set (map (\<lambda>c. fillna (Fin 0) (r c)) cols)"
    then obtain c where c: "c \<in> set cols" "x = fillna (Fin 0) (r c)" by auto
    with assms have "\<not> isinf (r c)" by blast
    then show "\<exists>v. x = Fin v" unfolding c(2) by (cases "r c") (auto simp: fillna_def isna_def isinf_def)
  qed
  have v: "value0 (fillna (Fin 0) x) = value0 x" for x
    by (cases x) (auto simp: fillna_def isna_def)
  show ?thesis
    unfolding row_total_def foldl_fl_add_finite [OF f] by (simp add: comp_def v)
qed

lemma row_total_all_undefined:
  assumes "\<forall>c \<in> set cols. isna (r c)"
  shows "row_total cols r = Fin 0"
proof -
  have "\<forall>c \<in> set cols. \<not> isinf (r c)" using assms by (auto simp: isna_def isinf_def)
  from row_total_finite [OF this] have "row_total cols r = Fin (\<Sum>c\<leftarrow>cols. value0 (r c))" .
  moreover have "(\<Sum>c\<leftarrow>cols. value0 (r c)) = 0"
    using assms by (induction cols) (auto simp: isna_def)
  ultimately show ?thesis by simp
qed

lemma row_total_cong:
  "(\<And>c. c \<in> set cols \<Longrightarrow> r c = r' c) \<Longrightarrow> row_total cols r = row_total cols r'"
  unfolding row_total_def by (rule arg_cong [where f = "foldl fl_add (Fin 0)"]) simp

lemma clip_finite: "clip_lower (Fin 0) (fl_sub (Fin a) (Fin v)) = Fin (max 0 (a - v))"
  by (simp add: clip_lower_def fl_sub_def max_def)

lemma series_assign_other: "e \<noteq> c \<Longrightarrow> series (assign c f df) e = series df e"
  by (simp add: series_def rows_assign)

lemma coalesce_var_assign:
  assumes "exact spec \<noteq> c" "interval spec \<noteq> Some c"
  shows "coalesce_var (assign c f df) spec = coalesce_var df spec"
proof -
  have m: "\<And>e. e \<noteq> c \<Longrightarrow> (e \<in> set (columns (assign c f df))) = (e \<in> set (columns df))"
    by (simp add: columns_assign)
  have l: "map (\<lambda>_. NaN) (rows (assign c f df)) = map (\<lambda>_. NaN) (rows df)"
    by (simp add: rows_assign)
  show ?thesis
  proof (cases "interval spec")
    case None
    then show ?thesis using assms(1) by (simp add: coalesce_var_def m l series_assign_other)
  next
    case (Some iv)
    then have "iv \<noteq> c" using assms(2) by auto
    then show ?thesis
      using Some assms(1) by (simp add: coalesce_var_def m l series_assign_other cong: if_cong)
  qed
qed

text \<open>
  Claim C4.  For coalesced debt and asset columns of the table (the asset columns not
  naming \<open>total_debt\<close>) and no infinite vehicle interval code, \<open>compute_totals\<close> returns a
  table of the same length where, for every row: \<open>total_debt\<close> is the sum of the debt
  cells with undefined cells counted as zero (in particular \<open>0\<close> when all are undefined,
  and the arithmetic sum of the defined ones when none is infinite); \<open>total_assets_raw\<close>
  is the same sum over the asset cells; and \<open>total_assets\<close> is \<open>total_assets_raw\<close> minus
  the coalesced business-vehicle value (zero when undefined), clipped below at zero, which
  for finite values is \<open>max 0 (assets - vehicle)\<close>.
\<close>

theorem compute_totals_rows:
  assumes d: "set debt_cols \<subseteq> set (columns df)"
    and a: "set asset_cols \<subseteq> set (columns df)"
    and nd: "''total_debt'' \<notin> set asset_cols"
    and fin: "\<forall>r \<in> set (rows df). \<not> isinf (r ''c7062it'')"
  shows "\<exists>df' vib. compute_totals df debt_cols asset_cols = Inr df' \<and>
           coalesce_var df ASSET_VEHICLE_IN_BUSINESS = Inr vib \<and>
           length (rows df') = length (rows df) \<and> length vib = length (rows df) \<and>
           (\<forall>i < length (rows df).
              let r = rows df ! i; r' = rows df' ! i;
                  debt = (\<Sum>c\<leftarrow>debt_cols. value0 (r c));
                  assets = (\<Sum>c\<leftarrow>asset_cols. value0 (r c))
              in r' ''total_debt'' = row_total debt_cols r \<and>
                 r' ''total_assets_raw'' = row_total asset_cols r \<and>
                 r' ''total_assets'' =
                   clip_lower (Fin 0) (fl_sub (r' ''total_assets_raw'') (fillna (Fin 0) (vib ! i))) \<and>
                 ((\<forall>c \<in> set debt_cols. isna (r c)) \<longrightarrow> r' ''total_debt'' = Fin 0) \<and>
                 ((\<forall>c \<in> set debt_cols. \<not> isinf (r c)) \<longrightarrow> r' ''total_debt'' = Fin debt) \<and>
                 ((\<forall>c \<in> set asset_cols. \<not> isinf (r c)) \<longrightarrow>
                    r' ''total_assets_raw'' = Fin assets \<and>
                    (\<not> isinf (vib ! i) \<longrightarrow>
                       r' ''total_assets'' = Fin (max 0 (assets - value0 (vib ! i))))))"
proof -
  let ?V = ASSET_VEHICLE_IN_BUSINESS
  define df1 where "df1 = assign ''total_debt'' (row_total debt_cols) df"
  define df2 where "df2 = assign ''total_assets_raw'' (row_total asset_cols) df1"
  have fin': "\<And>iv. interval ?V = Some iv \<Longrightarrow> \<forall>r \<in> set (rows df). \<not> isinf (r iv)"
    using fin by (simp add: ASSET_VEHICLE_IN_BUSINESS_def)
  from coalesce_var_returns [of ?V df, OF fin'] obtain vib where
    vib: "coalesce_var df ?V = Inr vib" "length vib = length (rows df)" by blast
  have cv: "coalesce_var df2 ?V = Inr vib"
    unfolding df2_def df1_def using vib(1)
    by (simp add: coalesce_var_assign ASSET_VEHICLE_IN_BUSINESS_def)
  have k1: "list_all (\<lambda>c. c \<in> set (columns df)) debt_cols" using d by (auto simp: list_all_iff)
  have k2: "list_all (\<lambda>c. c \<in> set (columns df1)) asset_cols"
    using a by (auto simp: list_all_iff df1_def columns_assign)
  define S where "S = map (\<lambda>(a, b). clip_lower (Fin 0) (fl_sub a b))
                        (zip (series df2 ''total_assets_raw'') (map (fillna (Fin 0)) vib))"
  have n2: "length (rows df2) = length (rows df)" by (simp add: df2_def df1_def rows_assign)
  have lS: "length S = length (rows df2)" using vib(2) n2 by (simp add: S_def length_series)
  let ?df' = "assign_series ''total_assets'' S df2"
  have res: "compute_totals df debt_cols asset_cols = Inr ?df'"
    using k1 k2 cv by (simp add: compute_totals_def Let_def df1_def [symmetric] df2_def [symmetric] S_def)
  have n': "length (rows ?df') = length (rows df)"
    using lS n2 by (simp add: length_rows_assign_series)
  have rowsprop: "\<forall>i < length (rows df).
              let r = rows df ! i; r' = rows ?df' ! i;
                  debt = (\<Sum>c\<leftarrow>debt_cols. value0 (r c));
                  assets = (\<Sum>c\<leftarrow>asset_cols. value0 (r c))
              in r' ''total_debt'' = row_total debt_cols r \<and>
                 r' ''total_assets_raw'' = row_total asset_cols r \<and>
                 r' ''total_assets'' =
                   clip_lower (Fin 0) (fl_sub (r' ''total_assets_raw'') (fillna (Fin 0) (vib ! i))) \<and>
                 ((\<forall>c \<in> set debt_cols. isna (r c)) \<longrightarrow> r' ''total_debt'' = Fin 0) \<and>
                 ((\<forall>c \<in> set debt_cols. \<not> isinf (r c)) \<longrightarrow> r' ''total_debt'' = Fin debt) \<and>
                 ((\<forall>c \<in> set asset_cols. \<not> isinf (r c)) \<longrightarrow>
                    r' ''total_assets_raw'' = Fin assets \<and>
                    (\<not> isinf (vib ! i) \<longrightarrow>
                       r' ''total_assets'' = Fin (max 0 (assets - value0 (vib ! i)))))"
  proof (intro allI impI)
    fix i assume i: "i < length (rows df)"
    define r where "r = rows df ! i"
    define A where "A = row_total asset_cols r"
    have r2: "rows df2 ! i = (r(''total_debt'' := row_total debt_cols r))
                (''total_assets_raw'' :=
                   row_total asset_cols (r(''total_debt'' := row_total debt_cols r)))"
      using i by (simp add: df2_def df1_def rows_assign r_def)
    have "row_total asset_cols (r(''total_debt'' := row_total debt_cols r)) = A"
      unfolding A_def using nd by (intro row_total_cong) auto
    then have r2': "rows df2 ! i =
        (r(''total_debt'' := row_total debt_cols r))(''total_assets_raw'' := A)"
      using r2 by simp
    have Si: "S ! i = clip_lower (Fin 0) (fl_sub A (fillna (Fin 0) (vib ! i)))"
      using i vib(2) n2 r2' by (simp add: S_def length_series nth_series)
    have r': "rows ?df' ! i = (rows df2 ! i)(''total_assets'' := S ! i)"
      using i lS n2 by (simp add: nth_rows_assign_series)
    have t1: "(rows ?df' ! i) ''total_debt'' = row_total debt_cols r"
      and t2: "(rows ?df' ! i) ''total_assets_raw'' = A"
      and t3: "(rows ?df' ! i) ''total_assets'' =
                 clip_lower (Fin 0) (fl_sub A (fillna (Fin 0) (vib ! i)))"
      unfolding r' r2' Si by simp_all
    have t4: "(\<forall>c \<in> set debt_cols. isna (r c)) \<longrightarrow> row_total debt_cols r = Fin 0"
      using row_total_all_undefined by blast
    have t5: "(\<forall>c \<in> set debt_cols. \<not> isinf (r c)) \<longrightarrow>
                row_total debt_cols r = Fin (\<Sum>c\<leftarrow>debt_cols. value0 (r c))"
      using row_total_finite by blast
    have t6: "(\<forall>c \<in> set asset_cols. \<not> isinf (r c)) \<longrightarrow>
                A = Fin (\<Sum>c\<leftarrow>asset_cols. value0 (r c))"
      unfolding A_def using row_total_finite by blast
    have t7: "\<not> isinf v \<Longrightarrow>
                clip_lower (Fin 0) (fl_sub (Fin x) (fillna (Fin 0) v)) = Fin (max 0 (x - value0 v))"
      for v x
      by (cases v) (auto simp: fillna_def isna_def isinf_def clip_finite)
    show "let r = rows df ! i; r' = rows ?df' ! i;
                  debt = (\<Sum>c\<leftarrow>debt_cols. value0 (r c));
                  assets = (\<Sum>c\<leftarrow>asset_cols. value0 (r c))
              in r' ''total_debt'' = row_total debt_cols r \<and>
                 r' ''total_assets_raw'' = row_total asset_cols r \<and>
                 r' ''total_assets'' =
                   clip_lower (Fin 0) (fl_sub (r' ''total_assets_raw'') (fillna (Fin 0) (vib ! i))) \<and>
                 ((\<forall>c \<in> set debt_cols. isna (r c)) \<longrightarrow> r' ''total_debt'' = Fin 0) \<and>
                 ((\<forall>c \<in> set debt_cols. \<not> isinf (r c)) \<longrightarrow> r' ''total_debt'' = Fin debt) \<and>
                 ((\<forall>c \<in> set asset_cols. \<not> isinf (r c)) \<longrightarrow>
                    r' ''total_assets_raw'' = Fin assets \<and>
                    (\<not> isinf (vib ! i) \<longrightarrow>
                       r' ''total_assets'' = Fin (max 0 (assets - value0 (vib ! i)))))"
      unfolding Let_def r_def [symmetric] t1 t2 t3
      using t4 t5 t6 t7 [of "vib ! i"] A_def by auto
  qed
  show ?thesis
    by (intro exI [of _ "?df'"] exI [of _ vib] conjI) (fact res, fact vib(1), fact n', fact vib(2), fact rowsprop)
qed

lemma example_totals_eval:
  "case compute_totals example_coalesced [''c7060_val'', ''e4003_val'']
          [''c8002_val'', ''d1105_val''] of
     Inl e \<Rightarrow> False
   | Inr d \<Rightarrow> series d ''total_debt'' = [Fin 1000, Fin 0, Fin 50] \<and>
             series d ''total_assets_raw'' = [Fin 300, Fin 2500, Fin 0] \<and>
             series d ''total_assets'' = [Fin 200, Fin 0, Fin 0]"
  by code_simp

theorem compute_totals_rows_witness:
  "set [''c7060_val'', ''e4003_val''] \<subseteq> set (columns example_coalesced) \<and>
   set [''c8002_val'', ''d1105_val''] \<subseteq> set (columns example_coalesced) \<and>
   ''total_debt'' \<notin> set [''c8002_val'', ''d1105_val''] \<and>
   list_all (\<lambda>r. \<not> isinf (r ''c7062it'')) (rows example_coalesced) \<and>
   (\<exists>df'. compute_totals example_coalesced [''c7060_val'', ''e4003_val'']
            [''c8002_val'', ''d1105_val''] = Inr df' \<and>
          length (rows df') = 3 \<and>
          series df' ''total_debt'' = [Fin 1000, Fin 0, Fin 50] \<and>
          series df' ''total_assets_raw'' = [Fin 300, Fin 2500, Fin 0] \<and>
          series df' ''total_assets'' = [Fin 200, Fin 0, Fin 0])"
proof -
  have h1: "set [''c7060_val'', ''e4003_val''] \<subseteq> set (columns example_coalesced)"
    and h2: "set [''c8002_val'', ''d1105_val''] \<subseteq> set (columns example_coalesced)"
    and h3: "''total_debt'' \<notin> set [''c8002_val'', ''d1105_val'']"
    and h4: "list_all (\<lambda>r. \<not> isinf (r ''c7062it'')) (rows example_coalesced)"
    by (simp_all add: example_coalesced_def mkrow_def isinf_def)
  from h4 have h4': "\<forall>r \<in> set (rows example_coalesced). \<not> isinf (r ''c7062it'')"
    by (simp add: list_all_iff)
  from compute_totals_rows [OF h1 h2 h3 h4'] obtain df' where
    r: "compute_totals example_coalesced [''c7060_val'', ''e4003_val'']
          [''c8002_val'', ''d1105_val''] = Inr df'"
    and n: "length (rows df') = length (rows example_coalesced)"
    by blast
  have n3: "length (rows df') = 3" using n by (simp add: example_coalesced_def)
  show ?thesis using h1 h2 h3 h4 r n3 example_totals_eval by (simp add: r)
qed

section \<open>Properties of head extraction\<close>

lemma rows_filter_rows: "rows (filter_rows p df) = filter p (rows df)"
  by (simp add: filter_rows_def)

lemma columns_filter_rows: "columns (filter_rows p df) = columns df"
  by (simp add: filter_rows_def)

lemma set_drop_dup_rows: "set (drop_dup_rows k seen rs) \<subseteq> set rs"
  by (induction rs arbitrary: seen) auto

lemma fold_rename_other:
  "new \<notin> snd ` set m \<Longrightarrow> fold (\<lambda>(old, new) r'. r'(new := h old)) m r0 new = r0 new"
  by (induction m arbitrary: r0) (auto split: prod.splits)

lemma fold_rename_lookup:
  "distinct (map snd m) \<Longrightarrow> (old, new) \<in> set m \<Longrightarrow>
   fold (\<lambda>(old, new) r'. r'(new := h old)) m r0 new = h old"
proof (induction m arbitrary: r0)
  case Nil
  then show ?case by simp
next
  case (Cons e m)
  show ?case
  proof (cases "e = (old, new)")
    case True
    then have "new \<notin> snd ` set m" using Cons.prems(1) by auto
    then have "fold (\<lambda>(old, new) r'. r'(new := h old)) m (r0(new := h old)) new =
               (r0(new := h old)) new"
      by (rule fold_rename_other)
    also have "\<dots> = h old" by simp
    finally show ?thesis using True by (simp del: fun_upd_apply)
  next
    case False
    then have "(old, new) \<in> set m" using Cons.prems(2) by auto
    moreover have "distinct (map snd m)" using Cons.prems(1) by simp
    ultimately show ?thesis using Cons.IH by (cases e) (simp del: fun_upd_apply)
  qed
qed

lemma head_cols_distinct: "distinct (map snd (filter p HEAD_COLS_MAP))"
proof -
  have "distinct (map snd HEAD_COLS_MAP)" by (simp add: HEAD_COLS_MAP_def)
  then show ?thesis by (rule distinct_map_filter)
qed

lemma rows_ensure_col:
  "rows (ensure_col col h) =
     map (\<lambda>r. if col \<in> set (columns h) then r else r(col := Fin 0)) (rows h)"
  by (simp add: ensure_col_def rows_assign)

lemma columns_ensure_col: "set (columns (ensure_col col h)) = insert col (set (columns h))"
  by (auto simp: ensure_col_def columns_assign)

lemma heads_frame_alt:
  "heads_frame ind_df cfg =
     assign ''head_siblings''
       (\<lambda>r. if fl_le (r ''head_age'') (Fin (of_int (sibling_max_age cfg)))
             then r ''head_siblings_raw'' else NaN)
       (assign ''head_siblings_raw''
          (\<lambda>r. fl_add (fillna (Fin 0) (r ''a2028'')) (fillna (Fin 0) (r ''a2029'')))
          (ensure_col ''a2029'' (ensure_col ''a2028''
             (filter_rows (\<lambda>r. fl_ge (r ''head_age'') (Fin (of_int (head_min_age cfg))))
                (assign ''head_age''
                   (\<lambda>r. fl_sub (Fin (of_int (survey_year cfg))) (r ''a2005''))
                   (filter_rows (\<lambda>r. fl_eq (r ''a2001'') (Fin 1)) ind_df))))))"
  by (simp add: heads_frame_def Let_def)

lemma heads_frame_columns:
  "''head_age'' \<in> set (columns (heads_frame ind_df cfg))"
  "''head_siblings'' \<in> set (columns (heads_frame ind_df cfg))"
  "(''hhid'' \<in> set (columns (heads_frame ind_df cfg))) = (''hhid'' \<in> set (columns ind_df))"
  "(c \<in> set (columns (heads_frame ind_df cfg))) =
     (c \<in> set (columns ind_df) \<union>
            {''head_age'', ''a2028'', ''a2029'', ''head_siblings_raw'', ''head_siblings''})"
  unfolding heads_frame_alt
  by (auto simp: columns_assign columns_filter_rows columns_ensure_col)

lemma heads_frame_rows:
  assumes "h \<in> set (rows (heads_frame ind_df cfg))"
  shows "\<exists>r \<in> set (rows ind_df).
           fl_eq (r ''a2001'') (Fin 1) \<and>
           h ''hhid'' = r ''hhid'' \<and>
           h ''head_age'' = fl_sub (Fin (of_int (survey_year cfg))) (r ''a2005'') \<and>
           fl_ge (h ''head_age'') (Fin (of_int (head_min_age cfg))) \<and>
           h ''a2028'' = (if ''a2028'' \<in> set (columns ind_df) then r ''a2028'' else Fin 0) \<and>
           h ''a2029'' = (if ''a2029'' \<in> set (columns ind_df) then r ''a2029'' else Fin 0) \<and>
           h ''head_siblings_raw'' =
             fl_add (fillna (Fin 0) (h ''a2028'')) (fillna (Fin 0) (h ''a2029'')) \<and>
           h ''head_siblings'' =
             (if fl_le (h ''head_age'') (Fin (of_int (sibling_max_age cfg)))
              then h ''head_siblings_raw'' else NaN)"
  using assms unfolding heads_frame_alt
  by (auto simp: rows_assign rows_filter_rows columns_assign columns_filter_rows
        rows_ensure_col columns_ensure_col)

lemma columns_select_rename: "columns (select_rename m df) = map snd m"
  by (simp add: select_rename_def)

lemma rows_select_rename:
  "rows (select_rename m df) =
     map (\<lambda>r. fold (\<lambda>(old, new) r'. r'(new := r old)) m (\<lambda>_. NaN)) (rows df)"
  by (simp add: select_rename_def)

lemma rows_drop_duplicates: "set (rows (drop_duplicates k df)) \<subseteq> set (rows df)"
  by (simp add: drop_duplicates_def set_drop_dup_rows)

lemma extract_heads_rows:
  assumes cols: "''a2001'' \<in> set (columns ind_df)" "''a2005'' \<in> set (columns ind_df)"
    "''hhid'' \<in> set (columns ind_df)"
  shows "\<exists>res. extract_heads ind_df cfg = Inr res \<and>
           ''head_age'' \<in> set (columns res) \<and> ''head_siblings'' \<in> set (columns res) \<and>
           (\<forall>h' \<in> set (rows res). \<exists>h \<in> set (rows (heads_frame ind_df cfg)).
              h' ''hhid'' = h ''hhid'' \<and> h' ''head_age'' = h ''head_age'' \<and>
              h' ''head_siblings'' = h ''head_siblings'')"
proof -
  define heads where "heads = heads_frame ind_df cfg"
  define m where "m = filter (\<lambda>(k, v). k \<in> set (columns heads)) HEAD_COLS_MAP"
  have dm: "distinct (map snd m)" unfolding m_def by (rule head_cols_distinct)
  have in_m: "(''hhid'', ''hhid'') \<in> set m" "(''head_age'', ''head_age'') \<in> set m"
    "(''head_siblings'', ''head_siblings'') \<in> set m"
    unfolding m_def heads_def using cols(3)
    by (simp_all add: heads_frame_columns(1-3)) (simp_all add: HEAD_COLS_MAP_def)
  have key: "''hhid'' \<in> set (columns (select_rename m heads))"
    using in_m(1) by (force simp: columns_select_rename)
  let ?res = "drop_duplicates ''hhid'' (select_rename m heads)"
  have r: "extract_heads ind_df cfg = Inr ?res"
    using cols(1,2) key
    by (simp add: extract_heads_def Let_def heads_def [symmetric] m_def [symmetric])
  have "\<forall>h' \<in> set (rows ?res). \<exists>h \<in> set (rows heads).
              h' ''hhid'' = h ''hhid'' \<and> h' ''head_age'' = h ''head_age'' \<and>
              h' ''head_siblings'' = h ''head_siblings''"
  proof
    fix h' assume "h' \<in> set (rows ?res)"
    then have "h' \<in> set (rows (select_rename m heads))" using rows_drop_duplicates by blast
    then obtain h where h: "h \<in> set (rows heads)"
      "h' = fold (\<lambda>(old, new) r'. r'(new := h old)) m (\<lambda>_. NaN)"
      by (auto simp: rows_select_rename)
    have "h' ''hhid'' = h ''hhid''" "h' ''head_age'' = h ''head_age''"
      "h' ''head_siblings'' = h ''head_siblings''"
      unfolding h(2) using dm in_m by (simp_all add: fold_rename_lookup)
    with h(1) show "\<exists>h \<in> set (rows heads).
              h' ''hhid'' = h ''hhid'' \<and> h' ''head_age'' = h ''head_age'' \<and>
              h' ''head_siblings'' = h ''head_siblings''" by blast
  qed
  moreover have "''head_age'' \<in> set (columns ?res)" "''head_siblings'' \<in> set (columns ?res)"
    using in_m(2,3) by (force simp: drop_duplicates_def columns_select_rename)+
  ultimately show ?thesis using r unfolding heads_def by blast
qed

lemma fl_gt_not_le: "fl_gt a b \<Longrightarrow> \<not> fl_le a b"
  by (cases a; cases b) (auto simp: fl_gt_def fl_le_def fl_eq_def)

lemma fl_ge_defined: "fl_ge x b \<Longrightarrow> \<not> isna x"
  by (cases x; cases b) (auto simp: fl_ge_def fl_le_def fl_eq_def isna_def)

lemma fl_sub_undefined: "isna (fl_sub (Fin y) x) = isna x"
  by (cases x) (auto simp: fl_sub_def isna_def)

lemma sibling_sum_defined:
  "\<not> isinf a \<Longrightarrow> \<not> isinf b \<Longrightarrow>
   fl_add (fillna (Fin 0) a) (fillna (Fin 0) b) = Fin (value0 a + value0 b)"
  by (cases a; cases b) (auto simp: fillna_def isna_def isinf_def)

text \<open>
  Claim C5.  Every row of the head frame (the heads kept by the age filter) has
  \<open>head_siblings_raw\<close> equal to the sum of the two sibling fields with an undefined field
  counted as zero, a finite number whenever neither field is infinite, and
  \<open>head_siblings\<close> equal to that raw count when \<open>head_age\<close> is at most the ceiling and
  \<open>NaN\<close> otherwise.  \<open>extract_heads\<close> returns, and each returned row carries the
  \<open>head_age\<close> and \<open>head_siblings\<close> of a head row of the input: the raw count when the
  age is at most the ceiling, \<open>NaN\<close> when the age exceeds it.
\<close>

theorem head_siblings_rule:
  assumes cols: "''a2001'' \<in> set (columns ind_df)" "''a2005'' \<in> set (columns ind_df)"
    "''hhid'' \<in> set (columns ind_df)"
  shows "(\<forall>h \<in> set (rows (heads_frame ind_df cfg)).
            h ''head_siblings_raw'' =
              fl_add (fillna (Fin 0) (h ''a2028'')) (fillna (Fin 0) (h ''a2029'')) \<and>
            (\<not> isinf (h ''a2028'') \<and> \<not> isinf (h ''a2029'') \<longrightarrow>
               h ''head_siblings_raw'' = Fin (value0 (h ''a2028'') + value0 (h ''a2029''))) \<and>
            h ''head_siblings'' =
              (if fl_le (h ''head_age'') (Fin (of_int (sibling_max_age cfg)))
               then h ''head_siblings_raw'' else NaN)) \<and>
         (\<exists>res. extract_heads ind_df cfg = Inr res \<and>
            ''head_siblings'' \<in> set (columns res) \<and>
            (\<forall>h' \<in> set (rows res). \<exists>r \<in> set (rows ind_df).
               let s28 = (if ''a2028'' \<in> set (columns ind_df) then r ''a2028'' else Fin 0);
                   s29 = (if ''a2029'' \<in> set (columns ind_df) then r ''a2029'' else Fin 0);
                   raw = fl_add (fillna (Fin 0) s28) (fillna (Fin 0) s29);
                   age = fl_sub (Fin (of_int (survey_year cfg))) (r ''a2005'')
               in fl_eq (r ''a2001'') (Fin 1) \<and> h' ''hhid'' = r ''hhid'' \<and>
                  h' ''head_age'' = age \<and>
                  (\<not> isinf s28 \<and> \<not> isinf s29 \<longrightarrow> raw = Fin (value0 s28 + value0 s29)) \<and>
                  (fl_le age (Fin (of_int (sibling_max_age cfg))) \<longrightarrow>
                     h' ''head_siblings'' = raw) \<and>
                  (fl_gt age (Fin (of_int (sibling_max_age cfg))) \<longrightarrow>
                     h' ''head_siblings'' = NaN)))"
proof (intro conjI)
  show "\<forall>h \<in> set (rows (heads_frame ind_df cfg)).
            h ''head_siblings_raw'' =
              fl_add (fillna (Fin 0) (h ''a2028'')) (fillna (Fin 0) (h ''a2029'')) \<and>
            (\<not> isinf (h ''a2028'') \<and> \<not> isinf (h ''a2029'') \<longrightarrow>
               h ''head_siblings_raw'' = Fin (value0 (h ''a2028'') + value0 (h ''a2029''))) \<and>
            h ''head_siblings'' =
              (if fl_le (h ''head_age'') (Fin (of_int (sibling_max_age cfg)))
               then h ''head_siblings_raw'' else NaN)"
  proof
    fix h assume "h \<in> set (rows (heads_frame ind_df cfg))"
    from heads_frame_rows [OF this] obtain r where
      raw: "h ''head_siblings_raw'' =
              fl_add (fillna (Fin 0) (h ''a2028'')) (fillna (Fin 0) (h ''a2029''))"
      and sib: "h ''head_siblings'' =
             (if fl_le (h ''head_age'') (Fin (of_int (sibling_max_age cfg)))
              then h ''head_siblings_raw'' else NaN)"
      by blast
    show "h ''head_siblings_raw'' =
              fl_add (fillna (Fin 0) (h ''a2028'')) (fillna (Fin 0) (h ''a2029'')) \<and>
            (\<not> isinf (h ''a2028'') \<and> \<not> isinf (h ''a2029'') \<longrightarrow>
               h ''head_siblings_raw'' = Fin (value0 (h ''a2028'') + value0 (h ''a2029''))) \<and>
            h ''head_siblings'' =
              (if fl_le (h ''head_age'') (Fin (of_int (sibling_max_age cfg)))
               then h ''head_siblings_raw'' else NaN)"
      using raw sib sibling_sum_defined by auto
  qed
next
  from extract_heads_rows [OF cols, of cfg] obtain res where
    r: "extract_heads ind_df cfg = Inr res"
    and c: "''head_siblings'' \<in> set (columns res)"
    and rows: "\<forall>h' \<in> set (rows res). \<exists>h \<in> set (rows (heads_frame ind_df cfg)).
              h' ''hhid'' = h ''hhid'' \<and> h' ''head_age'' = h ''head_age'' \<and>
              h' ''head_siblings'' = h ''head_siblings''"
    by blast
  have "\<forall>h' \<in> set (rows res). \<exists>r \<in> set (rows ind_df).
               let s28 = (if ''a2028'' \<in> set (columns ind_df) then r ''a2028'' else Fin 0);
                   s29 = (if ''a2029'' \<in> set (columns ind_df) then r ''a2029'' else Fin 0);
                   raw = fl_add (fillna (Fin 0) s28) (fillna (Fin 0) s29);
                   age = fl_sub (Fin (of_int (survey_year cfg))) (r ''a2005'')
               in fl_eq (r ''a2001'') (Fin 1) \<and> h' ''hhid'' = r ''hhid'' \<and>
                  h' ''head_age'' = age \<and>
                  (\<not> isinf s28 \<and> \<not> isinf s29 \<longrightarrow> raw = Fin (value0 s28 + value0 s29)) \<and>
                  (fl_le age (Fin (of_int (sibling_max_age cfg))) \<longrightarrow>
                     h' ''head_siblings'' = raw) \<and>
                  (fl_gt age (Fin (of_int (sibling_max_age cfg))) \<longrightarrow>
                     h' ''head_siblings'' = NaN)"
  proof
    fix h' assume "h' \<in> set (rows res)"
    with rows obtain h where h: "h \<in> set (rows (heads_frame ind_df cfg))"
      "h' ''hhid'' = h ''hhid''" "h' ''head_age'' = h ''head_age''"
      "h' ''head_siblings'' = h ''head_siblings''" by blast
    from heads_frame_rows [OF h(1)] obtain r where rr: "r \<in> set (rows ind_df)"
      and p: "fl_eq (r ''a2001'') (Fin 1)" "h ''hhid'' = r ''hhid''"
        "h ''head_age'' = fl_sub (Fin (of_int (survey_year cfg))) (r ''a2005'')"
        "h ''a2028'' = (if ''a2028'' \<in> set (columns ind_df) then r ''a2028'' else Fin 0)"
        "h ''a2029'' = (if ''a2029'' \<in> set (columns ind_df) then r ''a2029'' else Fin 0)"
        "h ''head_siblings_raw'' =
           fl_add (fillna (Fin 0) (h ''a2028'')) (fillna (Fin 0) (h ''a2029''))"
        "h ''head_siblings'' =
           (if fl_le (h ''head_age'') (Fin (of_int (sibling_max_age cfg)))
            then h ''head_siblings_raw'' else NaN)"
      by blast
    have "let s28 = (if ''a2028'' \<in> set (columns ind_df) then r ''a2028'' else Fin 0);
                   s29 = (if ''a2029'' \<in> set (columns ind_df) then r ''a2029'' else Fin 0);
                   raw = fl_add (fillna (Fin 0) s28) (fillna (Fin 0) s29);
                   age = fl_sub (Fin (of_int (survey_year cfg))) (r ''a2005'')
               in fl_eq (r ''a2001'') (Fin 1) \<and> h' ''hhid'' = r ''hhid'' \<and>
                  h' ''head_age'' = age \<and>
                  (\<not> isinf s28 \<and> \<not> isinf s29 \<longrightarrow> raw = Fin (value0 s28 + value0 s29)) \<and>
                  (fl_le age (Fin (of_int (sibling_max_age cfg))) \<longrightarrow>
                     h' ''head_siblings'' = raw) \<and>
                  (fl_gt age (Fin (of_int (sibling_max_age cfg))) \<longrightarrow>
                     h' ''head_siblings'' = NaN)"
      unfolding Let_def h(2-4) p(7) p(6) p(4) p(5) p(3) p(2)
      using p(1) fl_gt_not_le sibling_sum_defined by auto
    with rr show "\<exists>r \<in> set (rows ind_df).
               let s28 = (if ''a2028'' \<in> set (columns ind_df) then r ''a2028'' else Fin 0);
                   s29 = (if ''a2029'' \<in> set (columns ind_df) then r ''a2029'' else Fin 0);
                   raw = fl_add (fillna (Fin 0) s28) (fillna (Fin 0) s29);
                   age = fl_sub (Fin (of_int (survey_year cfg))) (r ''a2005'')
               in fl_eq (r ''a2001'') (Fin 1) \<and> h' ''hhid'' = r ''hhid'' \<and>
                  h' ''head_age'' = age \<and>
                  (\<not> isinf s28 \<and> \<not> isinf s29 \<longrightarrow> raw = Fin (value0 s28 + value0 s29)) \<and>
                  (fl_le age (Fin (of_int (sibling_max_age cfg))) \<longrightarrow>
                     h' ''head_siblings'' = raw) \<and>
                  (fl_gt age (Fin (of_int (sibling_max_age cfg))) \<longrightarrow>
                     h' ''head_siblings'' = NaN)" by blast
  qed
  with r c show "\<exists>res. extract_heads ind_df cfg = Inr res \<and>
            ''head_siblings'' \<in> set (columns res) \<and>
            (\<forall>h' \<in> set (rows res). \<exists>r \<in> set (rows ind_df).
               let s28 = (if ''a2028'' \<in> set (columns ind_df) then r ''a2028'' else Fin 0);
                   s29 = (if ''a2029'' \<in> set (columns ind_df) then r ''a2029'' else Fin 0);
                   raw = fl_add (fillna (Fin 0) s28) (fillna (Fin 0) s29);
                   age = fl_sub (Fin (of_int (survey_year cfg))) (r ''a2005'')
               in fl_eq (r ''a2001'') (Fin 1) \<and> h' ''hhid'' = r ''hhid'' \<and>
                  h' ''head_age'' = age \<and>
                  (\<not> isinf s28 \<and> \<not> isinf s29 \<longrightarrow> raw = Fin (value0 s28 + value0 s29)) \<and>
                  (fl_le age (Fin (of_int (sibling_max_age cfg))) \<longrightarrow>
                     h' ''head_siblings'' = raw) \<and>
                  (fl_gt age (Fin (of_int (sibling_max_age cfg))) \<longrightarrow>
                     h' ''head_siblings'' = NaN))" by blast
qed

text \<open>
  Claim C10.  A head whose birth year is undefined gets an undefined age, and an undefined
  age fails the minimum-age comparison; so no row of the head frame, and no row of the
  table \<open>extract_heads\<close> returns, has an undefined \<open>head_age\<close>, and each returned row
  comes from an input row whose birth year is defined.
\<close>

theorem undefined_birth_year_dropped:
  assumes cols: "''a2001'' \<in> set (columns ind_df)" "''a2005'' \<in> set (columns ind_df)"
    "''hhid'' \<in> set (columns ind_df)"
  shows "(\<forall>r \<in> set (rows ind_df). isna (r ''a2005'') \<longrightarrow>
            isna (fl_sub (Fin (of_int (survey_year cfg))) (r ''a2005'')) \<and>
            \<not> fl_ge (fl_sub (Fin (of_int (survey_year cfg))) (r ''a2005''))
                 (Fin (of_int (head_min_age cfg)))) \<and>
         (\<forall>h \<in> set (rows (heads_frame ind_df cfg)). \<not> isna (h ''head_age'')) \<and>
         (\<exists>res. extract_heads ind_df cfg = Inr res \<and> ''head_age'' \<in> set (columns res) \<and>
            (\<forall>h' \<in> set (rows res). \<not> isna (h' ''head_age'') \<and>
               (\<exists>r \<in> set (rows ind_df). h' ''hhid'' = r ''hhid'' \<and> \<not> isna (r ''a2005'') \<and>
                  h' ''head_age'' = fl_sub (Fin (of_int (survey_year cfg))) (r ''a2005''))))"
proof (intro conjI)
  show "\<forall>r \<in> set (rows ind_df). isna (r ''a2005'') \<longrightarrow>
            isna (fl_sub (Fin (of_int (survey_year cfg))) (r ''a2005'')) \<and>
            \<not> fl_ge (fl_sub (Fin (of_int (survey_year cfg))) (r ''a2005''))
                 (Fin (of_int (head_min_age cfg)))"
    by (auto simp: fl_sub_undefined dest: fl_ge_defined)
next
  have age: "\<not> isna (h ''head_age'') \<and>
             (\<exists>r \<in> set (rows ind_df). h ''hhid'' = r ''hhid'' \<and> \<not> isna (r ''a2005'') \<and>
                h ''head_age'' = fl_sub (Fin (of_int (survey_year cfg))) (r ''a2005''))"
    if "h \<in> set (rows (heads_frame ind_df cfg))" for h
  proof -
    from heads_frame_rows [OF that] obtain r where rr: "r \<in> set (rows ind_df)"
      and p: "h ''hhid'' = r ''hhid''"
        "h ''head_age'' = fl_sub (Fin (of_int (survey_year cfg))) (r ''a2005'')"
        "fl_ge (h ''head_age'') (Fin (of_int (head_min_age cfg)))"
      by blast
    have d: "\<not> isna (h ''head_age'')" using p(3) by (rule fl_ge_defined)
    then have "\<not> isna (r ''a2005'')" unfolding p(2) fl_sub_undefined .
    with d rr p show ?thesis by blast
  qed
  show "\<forall>h \<in> set (rows (heads_frame ind_df cfg)). \<not> isna (h ''head_age'')"
    using age by blast
  from extract_heads_rows [OF cols, of cfg] obtain res where
    r: "extract_heads ind_df cfg = Inr res"
    and c: "''head_age'' \<in> set (columns res)"
    and rows: "\<forall>h' \<in> set (rows res). \<exists>h \<in> set (rows (heads_frame ind_df cfg)).
              h' ''hhid'' = h ''hhid'' \<and> h' ''head_age'' = h ''head_age'' \<and>
              h' ''head_siblings'' = h ''head_siblings''"
    by blast
  have "\<forall>h' \<in> set (rows res). \<not> isna (h' ''head_age'') \<and>
               (\<exists>r \<in> set (rows ind_df). h' ''hhid'' = r ''hhid'' \<and> \<not> isna (r ''a2005'') \<and>
                  h' ''head_age'' = fl_sub (Fin (of_int (survey_year cfg))) (r ''a2005''))"
  proof
    fix h' assume "h' \<in> set (rows res)"
    with rows obtain h where h: "h \<in> set (rows (heads_frame ind_df cfg))"
      "h' ''hhid'' = h ''hhid''" "h' ''head_age'' = h ''head_age''" by blast
    from age [OF h(1)] show "\<not> isna (h' ''head_age'') \<and>
               (\<exists>r \<in> set (rows ind_df). h' ''hhid'' = r ''hhid'' \<and> \<not> isna (r ''a2005'') \<and>
                  h' ''head_age'' = fl_sub (Fin (of_int (survey_year cfg))) (r ''a2005''))"
      unfolding h(2,3) .
  qed
  with r c show "\<exists>res. extract_heads ind_df cfg = Inr res \<and> ''head_age'' \<in> set (columns res) \<and>
            (\<forall>h' \<in> set (rows res). \<not> isna (h' ''head_age'') \<and>
               (\<exists>r \<in> set (rows ind_df). h' ''hhid'' = r ''hhid'' \<and> \<not> isna (r ''a2005'') \<and>
                  h' ''head_age'' = fl_sub (Fin (of_int (survey_year cfg))) (r ''a2005'')))"
    by blast
qed

lemma example_heads:
  "case extract_heads example_individuals default_settings of
     Inl e \<Rightarrow> False
   | Inr d \<Rightarrow> columns d = [''hhid'', ''head_age'', ''head_siblings''] \<and>
             series d ''hhid'' = [Fin 5, Fin 7, Fin 9] \<and>
             series d ''head_age'' = [Fin 27, Fin 67, Fin 37] \<and>
             series d ''head_siblings'' = [Fin 2, NaN, Fin 0]"
  by code_simp

lemma example_individuals_cols:
  "''a2001'' \<in> set (columns example_individuals)"
  "''a2005'' \<in> set (columns example_individuals)"
  "''hhid'' \<in> set (columns example_individuals)"
  by (simp_all add: example_individuals_def)

theorem head_siblings_rule_witness:
  "''a2001'' \<in> set (columns example_individuals) \<and>
   ''a2005'' \<in> set (columns example_individuals) \<and>
   ''hhid'' \<in> set (columns example_individuals) \<and>
   (\<exists>res. extract_heads example_individuals default_settings = Inr res \<and>
      ''head_siblings'' \<in> set (columns res) \<and>
      series res ''head_age'' = [Fin 27, Fin 67, Fin 37] \<and>
      series res ''head_siblings'' = [Fin 2, NaN, Fin 0])"
proof -
  from head_siblings_rule [OF example_individuals_cols, of default_settings] obtain res where
    r: "extract_heads example_individuals default_settings = Inr res"
    and c: "''head_siblings'' \<in> set (columns res)"
    by blast
  show ?thesis using example_individuals_cols r c example_heads by (simp add: r)
qed

theorem undefined_birth_year_dropped_witness:
  "''a2001'' \<in> set (columns example_individuals) \<and>
   ''a2005'' \<in> set (columns example_individuals) \<and>
   ''hhid'' \<in> set (columns example_individuals) \<and>
   (\<exists>res. extract_heads example_individuals default_settings = Inr res \<and>
      ''head_age'' \<in> set (columns res) \<and>
      list_all (\<lambda>h. \<not> isna (h ''head_age'')) (rows res) \<and>
      series res ''hhid'' = [Fin 5, Fin 7, Fin 9] \<and>
      series res ''head_age'' = [Fin 27, Fin 67, Fin 37])"
proof -
  from undefined_birth_year_dropped [OF example_individuals_cols, of default_settings]
  obtain res where
    r: "extract_heads example_individuals default_settings = Inr res"
    and c: "''head_age'' \<in> set (columns res)"
    and d: "\<forall>h' \<in> set (rows res). \<not> isna (h' ''head_age'')"
    by blast
  have "list_all (\<lambda>h. \<not> isna (h ''head_age'')) (rows res)" using d by (simp add: list_all_iff)
  then show ?thesis using example_individuals_cols r c example_heads by (simp add: r)
qed

section \<open>Properties of the validator\<close>

lemma value_checks_rules:
  "v \<in> set (value_checks col schema non_null) \<Longrightarrow>
   rule v \<noteq> ''NOT_NULLABLE'' \<and> column v = col"
  by (auto simp: value_checks_def mk_violation_def Let_def split: option.splits if_splits)

lemma check_column_columns: "v \<in> set (check_column df cs) \<Longrightarrow> column v = name cs"
  by (auto simp: check_column_def mk_violation_def Let_def dest: value_checks_rules
           split: if_splits)

lemma null_count_positive:
  assumes "\<exists>r \<in> set (rows df). isna (r c)"
  shows "0 < length (filter isna (series df c))"
proof -
  from assms obtain r where "r \<in> set (rows df)" "isna (r c)" by blast
  then have "r c \<in> set (filter isna (series df c))" by (auto simp: series_def)
  then have "filter isna (series df c) \<noteq> []" by (metis empty_iff empty_set)
  then show ?thesis by simp
qed

lemma check_column_not_nullable:
  assumes "\<not> nullable cs" "name cs \<in> set (columns df)" "\<exists>r \<in> set (rows df). isna (r (name cs))"
  shows "filter (\<lambda>v. rule v = ''NOT_NULLABLE'') (check_column df cs) =
           [mk_violation (name cs) ''NOT_NULLABLE''
              (NullValues (length (filter isna (series df (name cs))))
                 (real (length (filter isna (series df (name cs))))
                    / real (length (series df (name cs))) * 100))]"
proof -
  have p: "0 < length (filter isna (series df (name cs)))"
    using assms(3) by (rule null_count_positive)
  have none: "filter (\<lambda>v. rule v = ''NOT_NULLABLE'') (value_checks c cs nn) = []" for c nn
    by (auto simp: filter_empty_conv dest: value_checks_rules)
  show ?thesis
    using assms(1,2) p by (simp add: check_column_def Let_def none mk_violation_def)
qed

lemma count_in_concat:
  assumes "distinct (map name schema)" "cs \<in> set schema"
    and one: "length (filter P (f cs)) = 1"
    and others: "\<And>cs'. cs' \<in> set schema \<Longrightarrow> name cs' \<noteq> name cs \<Longrightarrow> filter P (f cs') = []"
  shows "length (filter P (concat (map f schema))) = 1"
  using assms(1,2) others
proof (induction schema)
  case Nil
  then show ?case by simp
next
  case (Cons a schema)
  show ?case
  proof (cases "a = cs")
    case True
    have "\<And>cs'. cs' \<in> set schema \<Longrightarrow> filter P (f cs') = []"
    proof -
      fix cs' assume m: "cs' \<in> set schema"
      then have "name cs' \<in> name ` set schema" by (rule imageI)
      moreover have "name cs \<notin> name ` set schema" using Cons.prems(1) True by simp
      ultimately have "name cs' \<noteq> name cs" by metis
      with m Cons.prems(3) show "filter P (f cs') = []" by simp
    qed
    then have "filter P (concat (map f schema)) = []"
      by (induction schema) auto
    then show ?thesis using True one by simp
  next
    case False
    then have m: "cs \<in> set schema" using Cons.prems(2) by simp
    then have "name a \<noteq> name cs" using Cons.prems(1) by auto
    then have "filter P (f a) = []" using Cons.prems(3) by simp
    moreover have "length (filter P (concat (map f schema))) = 1"
      using Cons.IH Cons.prems m by simp
    ultimately show ?thesis by simp
  qed
qed

lemma is_valid_iff: "is_valid rep = (\<forall>v \<in> set (violations rep). severity v \<noteq> ''ERROR'')"
  by (auto simp: is_valid_def list_ex_iff)

text \<open>
  Claim C6.  For a schema entry \<open>cs\<close> of the schema that is non-nullable, whose column is
  in the table and holds an undefined value: \<open>_check_column\<close> yields exactly one
  \<open>NOT_NULLABLE\<close> violation, of severity \<open>ERROR\<close> and for that column; the report of
  \<open>validate\<close> contains it and is not valid; when the schema names each column once it is
  the only \<open>NOT_NULLABLE\<close> violation of that column in the report.  For every report,
  \<open>is_valid\<close> holds exactly when no violation has severity \<open>ERROR\<close>, and removing the
  warnings does not change it.
\<close>

theorem not_nullable_violation:
  assumes "cs \<in> set schema" "\<not> nullable cs" "name cs \<in> set (columns df)"
    and "\<exists>r \<in> set (rows df). isna (r (name cs))"
  shows "length (filter (\<lambda>v. rule v = ''NOT_NULLABLE'') (check_column df cs)) = 1 \<and>
         (\<forall>v \<in> set (check_column df cs). rule v = ''NOT_NULLABLE'' \<longrightarrow>
            severity v = ''ERROR'' \<and> column v = name cs) \<and>
         set (check_column df cs) \<subseteq> set (violations (validate df (Some schema))) \<and>
         \<not> is_valid (validate df (Some schema)) \<and>
         (distinct (map name schema) \<longrightarrow>
            length (filter (\<lambda>v. column v = name cs \<and> rule v = ''NOT_NULLABLE'')
                      (violations (validate df (Some schema)))) = 1) \<and>
         is_valid rep = (\<forall>v \<in> set (violations rep). severity v \<noteq> ''ERROR'') \<and>
         is_valid rep =
           is_valid (rep\<lparr>violations := filter (\<lambda>v. severity v \<noteq> ''WARNING'') (violations rep)\<rparr>)"
proof -
  let ?nn = "mk_violation (name cs) ''NOT_NULLABLE''
              (NullValues (length (filter isna (series df (name cs))))
                 (real (length (filter isna (series df (name cs))))
                    / real (length (series df (name cs))) * 100))"
  have f: "filter (\<lambda>v. rule v = ''NOT_NULLABLE'') (check_column df cs) = [?nn]"
    using assms(2-4) by (rule check_column_not_nullable)
  then have one: "length (filter (\<lambda>v. rule v = ''NOT_NULLABLE'') (check_column df cs)) = 1"
    by simp
  have mem: "?nn \<in> set (check_column df cs)"
  proof -
    have "?nn \<in> set (filter (\<lambda>v. rule v = ''NOT_NULLABLE'') (check_column df cs))"
      unfolding f by simp
    then show ?thesis by simp
  qed
  have sev: "\<forall>v \<in> set (check_column df cs). rule v = ''NOT_NULLABLE'' \<longrightarrow>
            severity v = ''ERROR'' \<and> column v = name cs"
  proof (intro ballI impI)
    fix v assume "v \<in> set (check_column df cs)" "rule v = ''NOT_NULLABLE''"
    then have "v \<in> set (filter (\<lambda>v. rule v = ''NOT_NULLABLE'') (check_column df cs))" by simp
    then have "v = ?nn" unfolding f by simp
    then show "severity v = ''ERROR'' \<and> column v = name cs" by (simp add: mk_violation_def)
  qed
  have sub: "set (check_column df cs) \<subseteq> set (violations (validate df (Some schema)))"
    using assms(1) by (auto simp: validate_def)
  have "severity ?nn = ''ERROR''" by (simp add: mk_violation_def)
  with mem sub have inv: "\<not> is_valid (validate df (Some schema))"
    unfolding is_valid_iff by blast
  have cnt: "distinct (map name schema) \<longrightarrow>
            length (filter (\<lambda>v. column v = name cs \<and> rule v = ''NOT_NULLABLE'')
                      (violations (validate df (Some schema)))) = 1"
  proof
    assume d: "distinct (map name schema)"
    have same: "filter (\<lambda>v. column v = name cs \<and> rule v = ''NOT_NULLABLE'') (check_column df cs) =
                filter (\<lambda>v. rule v = ''NOT_NULLABLE'') (check_column df cs)"
      by (rule filter_cong [OF refl]) (auto dest: check_column_columns)
    have o: "length (filter (\<lambda>v. column v = name cs \<and> rule v = ''NOT_NULLABLE'')
                       (check_column df cs)) = 1"
      unfolding same by (rule one)
    have oth: "\<And>cs'. cs' \<in> set schema \<Longrightarrow> name cs' \<noteq> name cs \<Longrightarrow>
                 filter (\<lambda>v. column v = name cs \<and> rule v = ''NOT_NULLABLE'')
                   (check_column df cs') = []"
      by (auto simp: filter_empty_conv dest: check_column_columns)
    show "length (filter (\<lambda>v. column v = name cs \<and> rule v = ''NOT_NULLABLE'')
                      (violations (validate df (Some schema)))) = 1"
      unfolding validate_def
      using count_in_concat [of schema cs
               "\<lambda>v. column v = name cs \<and> rule v = ''NOT_NULLABLE''" "check_column df",
               OF d assms(1) o oth]
      by simp
  qed
  have w: "is_valid rep =
           is_valid (rep\<lparr>violations := filter (\<lambda>v. severity v \<noteq> ''WARNING'') (violations rep)\<rparr>)"
    unfolding is_valid_iff by auto
  show ?thesis using one sev sub inv cnt w is_valid_iff [of rep] by blast
qed

lemma example_validate:
  "violations (validate example_ids (Some [example_id_schema])) =
     [mk_violation ''id'' ''NOT_NULLABLE'' (NullValues 1 (100 / 3))]"
  by code_simp

theorem not_nullable_violation_witness:
  "example_id_schema \<in> set [example_id_schema] \<and> \<not> nullable example_id_schema \<and>
   name example_id_schema \<in> set (columns example_ids) \<and>
   list_ex (\<lambda>r. isna (r (name example_id_schema))) (rows example_ids) \<and>
   length (filter (\<lambda>v. rule v = ''NOT_NULLABLE'')
             (check_column example_ids example_id_schema)) = 1 \<and>
   \<not> is_valid (validate example_ids (Some [example_id_schema])) \<and>
   violations (validate example_ids (Some [example_id_schema])) =
     [mk_violation ''id'' ''NOT_NULLABLE'' (NullValues 1 (100 / 3))]"
proof -
  have h: "example_id_schema \<in> set [example_id_schema]" "\<not> nullable example_id_schema"
    "name example_id_schema \<in> set (columns example_ids)"
    "list_ex (\<lambda>r. isna (r (name example_id_schema))) (rows example_ids)"
    by (simp_all add: example_id_schema_def example_ids_def mkrow_def isna_def)
  from h(4) have h4: "\<exists>r \<in> set (rows example_ids). isna (r (name example_id_schema))"
    by (simp add: list_ex_iff)
  from not_nullable_violation [OF h(1-3) h4]
  have "length (filter (\<lambda>v. rule v = ''NOT_NULLABLE'')
                  (check_column example_ids example_id_schema)) = 1"
    and "\<not> is_valid (validate example_ids (Some [example_id_schema]))"
    by blast+
  with h example_validate show ?thesis by blast
qed

section \<open>Properties of the merge\<close>

lemma length_matches:
  "length (matches key right r) = count_list (series right key) (r key)"
proof -
  have "length (filter (\<lambda>q. q key = v) qs) = count_list (map (\<lambda>q. q key) qs) v" for qs v
    by (induction qs) auto
  then show ?thesis by (simp add: matches_def series_def)
qed

lemma count_list_distinct: "distinct xs \<Longrightarrow> count_list xs v \<le> 1"
  by (induction xs) (auto simp: count_list_0_iff)

text \<open>Each household row gives one merged row, or one per matching head row.\<close>

lemma sum_ge_length:
  "(\<And>x. x \<in> set xs \<Longrightarrow> 1 \<le> f x) \<Longrightarrow> length xs \<le> sum_list (map f xs)"
proof (induction xs)
  case Nil
  then show ?case by simp
next
  case (Cons x xs)
  have "1 \<le> f x" using Cons.prems by simp
  moreover have "length xs \<le> sum_list (map f xs)" using Cons by simp
  ultimately show ?case by simp
qed

lemma sum_eq_length_iff:
  fixes f :: "'a \<Rightarrow> nat"
  assumes "\<And>x. x \<in> set xs \<Longrightarrow> 1 \<le> f x"
  shows "(sum_list (map f xs) = length xs) = (\<forall>x \<in> set xs. f x = 1)"
  using assms
proof (induction xs)
  case Nil
  then show ?case by simp
next
  case (Cons x xs)
  have x: "1 \<le> f x" using Cons.prems by simp
  have ge: "length xs \<le> sum_list (map f xs)" using Cons.prems by (intro sum_ge_length) simp
  have ih: "(sum_list (map f xs) = length xs) = (\<forall>x \<in> set xs. f x = 1)"
    using Cons by simp
  show ?case using x ge ih by auto
qed

lemma merged_row_count:
  "length (concat (map (\<lambda>r. case matches key right r of
                                [] \<Rightarrow> [g r]
                              | ms \<Rightarrow> map (h r) ms) rs)) =
     sum_list (map (\<lambda>r. max 1 (count_list (series right key) (r key))) rs)"
proof -
  have "length (case matches key right r of [] \<Rightarrow> [g r] | ms \<Rightarrow> map (h r) ms) =
          max 1 (count_list (series right key) (r key))" for r
    unfolding length_matches [symmetric] by (cases "matches key right r") auto
  then show ?thesis by (simp add: length_concat comp_def)
qed

lemma pd_merge_left_plain:
  assumes "distinct (columns hh)" "distinct (columns head)"
    and "set (columns hh) \<inter> set (columns head) = {key}"
  shows "\<exists>m. pd_merge_left key hh head = Inr m \<and>
              columns m = columns hh @ filter (\<lambda>c. c \<noteq> key) (columns head) \<and>
              length (rows m) =
                sum_list (map (\<lambda>r. max 1 (count_list (series head key) (r key))) (rows hh))"
proof -
  have k: "key \<in> set (columns hh)" "key \<in> set (columns head)" using assms(3) by auto
  have l: "map (left_label key head) (columns hh) = columns hh"
    using assms(3) by (intro map_idI) (auto simp: left_label_def)
  have r: "map (right_label hh) (filter (\<lambda>c. c \<noteq> key) (columns head)) =
           filter (\<lambda>c. c \<noteq> key) (columns head)"
    using assms(3) by (intro map_idI) (auto simp: right_label_def)
  have d: "distinct (filter (\<lambda>c. c \<noteq> key) (columns head))" using assms(2) by simp
  show ?thesis
    using k assms(1) d by (simp add: pd_merge_left_def Let_def l r merged_row_count)
qed

text \<open>
  Claim C2, as amended.  For a household table and a head table with distinct labels whose
  only common label is \<open>hhid\<close>, the head table having a further column:
  \<open>merge_head_into_household\<close> raises \<open>ValueError\<close> exactly when the \<open>hhid\<close> of some
  household row occurs more than once in the head table; otherwise it returns a table with
  as many rows as the household table, in particular whenever the head table's \<open>hhid\<close>
  values are unique.
\<close>

theorem merge_row_count_guard:
  assumes wf: "distinct (columns hh_df)" "distinct (columns head_df)"
    and share: "set (columns hh_df) \<inter> set (columns head_df) = {''hhid''}"
    and other: "\<exists>c \<in> set (columns head_df). c \<noteq> ''hhid''"
  shows "(merge_head_into_household hh_df head_df = Inl ValueError) =
           (\<exists>r \<in> set (rows hh_df). 2 \<le> count_list (series head_df ''hhid'') (r ''hhid'')) \<and>
         ((\<forall>r \<in> set (rows hh_df). count_list (series head_df ''hhid'') (r ''hhid'') \<le> 1) \<longrightarrow>
            (\<exists>m. merge_head_into_household hh_df head_df = Inr m \<and>
                 length (rows m) = length (rows hh_df))) \<and>
         (distinct (series head_df ''hhid'') \<longrightarrow>
            (\<exists>m. merge_head_into_household hh_df head_df = Inr m \<and>
                 length (rows m) = length (rows hh_df)))"
proof -
  let ?f = "\<lambda>r. max 1 (count_list (series head_df ''hhid'') (r ''hhid''))"
  from pd_merge_left_plain [OF wf share] obtain m where
    m: "pd_merge_left ''hhid'' hh_df head_df = Inr m"
    and cm: "columns m = columns hh_df @ filter (\<lambda>c. c \<noteq> ''hhid'') (columns head_df)"
    and lm: "length (rows m) = sum_list (map ?f (rows hh_df))"
    by blast
  from other obtain c cs where
    first: "filter (\<lambda>c. c \<noteq> ''hhid'') (columns head_df) = c # cs"
    by (cases "filter (\<lambda>c. c \<noteq> ''hhid'') (columns head_df)") (auto simp: filter_empty_conv)
  have cin: "c \<in> set (columns m)" unfolding cm first by simp
  have res: "merge_head_into_household hh_df head_df =
               (if length (rows m) \<noteq> length (rows hh_df) then Inl ValueError else Inr m)"
    using m first cin by (simp add: merge_head_into_household_def)
  have eq: "(length (rows m) = length (rows hh_df)) =
            (\<forall>r \<in> set (rows hh_df). count_list (series head_df ''hhid'') (r ''hhid'') \<le> 1)"
  proof -
    have "(sum_list (map ?f (rows hh_df)) = length (rows hh_df)) =
          (\<forall>r \<in> set (rows hh_df). ?f r = 1)"
      by (rule sum_eq_length_iff) simp
    also have "\<dots> = (\<forall>r \<in> set (rows hh_df).
                         count_list (series head_df ''hhid'') (r ''hhid'') \<le> 1)"
      by (auto simp: max_def)
    finally show ?thesis unfolding lm .
  qed
  have a: "(merge_head_into_household hh_df head_df = Inl ValueError) =
           (\<exists>r \<in> set (rows hh_df). 2 \<le> count_list (series head_df ''hhid'') (r ''hhid''))"
  proof -
    have "(merge_head_into_household hh_df head_df = Inl ValueError) =
          (length (rows m) \<noteq> length (rows hh_df))"
      unfolding res by simp
    also have "\<dots> = (\<not> (\<forall>r \<in> set (rows hh_df).
                           count_list (series head_df ''hhid'') (r ''hhid'') \<le> 1))"
      unfolding eq by (rule refl)
    also have "\<dots> = (\<exists>r \<in> set (rows hh_df).
                         2 \<le> count_list (series head_df ''hhid'') (r ''hhid''))"
    proof -
      have p: "\<And>n::nat. (\<not> n \<le> Suc 0) = (2 \<le> n)" by arith
      show ?thesis by (simp add: p)
    qed
    finally show ?thesis .
  qed
  have b: "(\<forall>r \<in> set (rows hh_df). count_list (series head_df ''hhid'') (r ''hhid'') \<le> 1) \<longrightarrow>
            (\<exists>m. merge_head_into_household hh_df head_df = Inr m \<and>
                 length (rows m) = length (rows hh_df))"
  proof
    assume "\<forall>r \<in> set (rows hh_df). count_list (series head_df ''hhid'') (r ''hhid'') \<le> 1"
    then have l: "length (rows m) = length (rows hh_df)" using eq by simp
    then have "merge_head_into_household hh_df head_df = Inr m" using res by simp
    with l show "\<exists>m. merge_head_into_household hh_df head_df = Inr m \<and>
                 length (rows m) = length (rows hh_df)" by blast
  qed
  have c: "distinct (series head_df ''hhid'') \<longrightarrow>
            (\<exists>m. merge_head_into_household hh_df head_df = Inr m \<and>
                 length (rows m) = length (rows hh_df))"
  proof
    assume "distinct (series head_df ''hhid'')"
    then have "\<forall>r \<in> set (rows hh_df). count_list (series head_df ''hhid'') (r ''hhid'') \<le> 1"
      by (intro ballI count_list_distinct)
    with b show "\<exists>m. merge_head_into_household hh_df head_df = Inr m \<and>
                 length (rows m) = length (rows hh_df)" by (rule mp)
  qed
  show ?thesis by (intro conjI) (fact a, fact b, fact c)
qed

text \<open>
  Claim C2 as stated fails: a head table whose \<open>hhid\<close> column repeats a value that no
  household has is merged without error, the row count being unchanged.
\<close>

theorem merge_unmatched_duplicates_counterexample:
  "\<not> distinct (series example_heads_repeated ''hhid'') \<and>
   \<not> isl (merge_head_into_household example_households example_heads_repeated) \<and>
   length (rows (projr (merge_head_into_household example_households example_heads_repeated)))
     = length (rows example_households) \<and>
   series (projr (merge_head_into_household example_households example_heads_repeated))
     ''head_age'' = [NaN, Fin 40, NaN]"
  by code_simp

lemma example_merge:
  "case merge_head_into_household example_households example_heads of
      Inl e \<Rightarrow> False
    | Inr m \<Rightarrow> columns m = [''hhid'', ''income'', ''head_age''] \<and>
               series m ''hhid'' = [Fin 1, Fin 2, Fin 3] \<and>
               series m ''head_age'' = [Fin 30, Fin 40, NaN]"
  by code_simp

theorem merge_row_count_guard_witness:
  "distinct (columns example_households) \<and> distinct (columns example_heads) \<and>
   set (columns example_households) \<inter> set (columns example_heads) = {''hhid''} \<and>
   ''head_age'' \<in> set (columns example_heads) \<and>
   distinct (series example_heads ''hhid'') \<and>
   (\<exists>m. merge_head_into_household example_households example_heads = Inr m \<and>
        length (rows m) = length (rows example_households) \<and>
        series m ''head_age'' = [Fin 30, Fin 40, NaN])"
proof -
  have h: "distinct (columns example_households)" "distinct (columns example_heads)"
    "set (columns example_households) \<inter> set (columns example_heads) = {''hhid''}"
    "''head_age'' \<in> set (columns example_heads)"
    "distinct (series example_heads ''hhid'')"
    by (auto simp: example_households_def example_heads_def series_def mkrow_def)
  have o: "\<exists>c \<in> set (columns example_heads). c \<noteq> ''hhid''"
    by (simp add: example_heads_def)
  from merge_row_count_guard [OF h(1-3) o] h(5) obtain m where
    m: "merge_head_into_household example_households example_heads = Inr m"
    "length (rows m) = length (rows example_households)"
    by blast
  have "series m ''head_age'' = [Fin 30, Fin 40, NaN]"
    using example_merge by (simp add: m(1))
  with h m show ?thesis by blast
qed

text \<open>
  Outside the amended claim: with a head table that has no column besides the key, the
  line that reports the match rate raises after the row count has been accepted.
\<close>

lemma merge_key_only_head:
  "isl (merge_head_into_household example_households example_heads_key_only) \<and>
   projl (merge_head_into_household example_households example_heads_key_only) = IndexError"
  by code_simp

end
